theory Spec2Isabelle
  imports Complex_Main "HOL-Library.Multiset"
begin

unbundle bit_operations_syntax

section \<open>Cards and the deck\<close>

text \<open>
  The four suit constants of \<^verbatim>\<open>blackjack.py\<close>. A \<^verbatim>\<open>PokerCard\<close> object has the
  fields \<^verbatim>\<open>suit\<close>, \<^verbatim>\<open>value\<close> (2 to 14, 14 the ace) and \<^verbatim>\<open>backside\<close>. The last one
  starts as \<^verbatim>\<open>False\<close> and is only ever changed by \<^verbatim>\<open>flip\<close>, which assigns
  \<^verbatim>\<open>~self.backside\<close>: the bitwise complement of a Python bool is an integer
  (\<^verbatim>\<open>~False == -1\<close>, \<^verbatim>\<open>~-1 == 0\<close>), so the field is an integer here, \<^verbatim>\<open>False\<close>
  being 0, and the card shows its back when the field is truthy, that is, not 0.
\<close>

datatype suit = HEARTS | DIAMONDS | SPADES | CLUBS

record PokerCard =
  suit :: suit
  cvalue :: int
  backside :: int

definition new_card :: "suit \<Rightarrow> int \<Rightarrow> PokerCard" where
  "new_card s v = \<lparr>suit = s, cvalue = v, backside = 0\<rparr>"

definition flip :: "PokerCard \<Rightarrow> PokerCard" where
  "flip c = c\<lparr>backside := NOT (backside c)\<rparr>"

definition face_down :: "PokerCard \<Rightarrow> bool" where
  "face_down c \<longleftrightarrow> backside c \<noteq> 0"

text \<open>The printed identity of a card: what \<^verbatim>\<open>display\<close> shows of a face-up card.\<close>

definition face :: "PokerCard \<Rightarrow> suit \<times> int" where
  "face c = (suit c, cvalue c)"

section \<open>Hand value\<close>

text \<open>
  \<^verbatim>\<open>handValue\<close>: the first loop adds \<^verbatim>\<open>min(10, card.value)\<close> for every card that is
  not an ace and counts the aces; then one point is added per ace, and the second loop
  runs once per ace, adding 10 whenever the total stays at most 21.
\<close>

fun count_cards :: "PokerCard list \<Rightarrow> int \<Rightarrow> nat \<Rightarrow> int \<times> nat" where
  "count_cards [] tot aces = (tot, aces)"
| "count_cards (c # cards) tot aces =
     (if cvalue c \<noteq> 14 then count_cards cards (tot + min 10 (cvalue c)) aces
      else count_cards cards tot (aces + 1))"

fun add_aces :: "nat \<Rightarrow> int \<Rightarrow> int" where
  "add_aces 0 tot = tot"
| "add_aces (Suc n) tot = add_aces n (if tot + 10 \<le> 21 then tot + 10 else tot)"

definition handValue :: "PokerCard list \<Rightarrow> int" where
  "handValue cards =
     (case count_cards cards 0 0 of (tot, aces) \<Rightarrow> add_aces aces (tot + int aces))"

text \<open>
  The reading of the hand value in the specification, for comparison with \<open>handValue\<close>:
  \<open>ace_totals\<close> lists every total obtained by counting each ace as 1 or as 11 and every
  other card as \<^verbatim>\<open>min(10, value)\<close>; \<open>best_total\<close> is the greatest of them that is at
  most 21, or the least of them when all exceed 21. \<open>hard\<close> and \<open>aces_of\<close> are the two
  quantities the first loop of \<^verbatim>\<open>handValue\<close> computes.
\<close>

fun ace_totals :: "PokerCard list \<Rightarrow> int list" where
  "ace_totals [] = [0]"
| "ace_totals (c # cards) =
     (if cvalue c = 14
      then map (\<lambda>t. 1 + t) (ace_totals cards) @ map (\<lambda>t. 11 + t) (ace_totals cards)
      else map (\<lambda>t. min 10 (cvalue c) + t) (ace_totals cards))"

definition best_total :: "PokerCard list \<Rightarrow> int" where
  "best_total cards =
     (let ts = ace_totals cards; ok = filter (\<lambda>t. t \<le> 21) ts
      in if ok \<noteq> [] then Max (set ok) else Min (set ts))"

definition hard :: "PokerCard list \<Rightarrow> int" where
  "hard cards = (\<Sum>c\<leftarrow>cards. if cvalue c \<noteq> 14 then min 10 (cvalue c) else 0)"

definition aces_of :: "PokerCard list \<Rightarrow> nat" where
  "aces_of cards = length (filter (\<lambda>c. cvalue c = 14) cards)"

section \<open>Settlement\<close>

text \<open>
  The \<^verbatim>\<open>if\<close>/\<^verbatim>\<open>elif\<close> chain at the end of a round in \<^verbatim>\<open>main\<close>, in the source's order;
  the result is the new \<^verbatim>\<open>userMoney\<close>. Amounts of money are Python floats in the source;
  they are idealised as real numbers throughout (no rounding, no infinities, no NaN).
\<close>

definition settle :: "real \<Rightarrow> real \<Rightarrow> int \<Rightarrow> int \<Rightarrow> real" where
  "settle userMoney bet finalUserVal finalDealVal =
     (if finalDealVal > 21 then userMoney + bet
      else if finalUserVal > 21 \<or> finalUserVal < finalDealVal then userMoney - bet
      else if finalUserVal > finalDealVal then userMoney + bet
      else if finalUserVal = finalDealVal then userMoney
      else userMoney)"

section \<open>Console input\<close>

text \<open>
  Every way the program stops other than by running on: \<^verbatim>\<open>sys.exit()\<close> after a printed
  line (the text and the exit status, 0 for \<^verbatim>\<open>sys.exit()\<close> without argument), or an
  uncaught exception. Nothing in \<^verbatim>\<open>blackjack.py\<close> catches an exception.
\<close>

datatype halt = SysExit string int | ValueError | EOFError | IndexError

text \<open>
  The console is the list of the lines still to be typed. \<^verbatim>\<open>input\<close> takes the first one
  and raises \<^verbatim>\<open>EOFError\<close> when there is none. Prompts and printed lines are not modelled.
\<close>

definition input :: "string list \<Rightarrow> halt + string \<times> string list" where
  "input ins = (case ins of [] \<Rightarrow> Inl EOFError | s # rest \<Rightarrow> Inr (s, rest))"

text \<open>
  \<^verbatim>\<open>str.upper\<close> and \<^verbatim>\<open>str.strip\<close> on ASCII text: a lower-case letter (codes 97 to
  122) loses 32, which is its bit 5; the characters stripped are the ASCII ones for which
  \<^verbatim>\<open>str.isspace\<close> holds.
\<close>

definition upper_char :: "char \<Rightarrow> char" where
  "upper_char c =
     (if 97 \<le> (of_char c :: nat) \<and> (of_char c :: nat) \<le> 122
      then (case c of Char b0 b1 b2 b3 b4 b5 b6 b7 \<Rightarrow> Char b0 b1 b2 b3 b4 False b6 b7)
      else c)"

definition upper :: "string \<Rightarrow> string" where
  "upper s = map upper_char s"

definition is_space :: "char \<Rightarrow> bool" where
  "is_space c \<longleftrightarrow> (of_char c :: nat) \<in> {9, 10, 11, 12, 13, 28, 29, 30, 31, 32}"

definition strip :: "string \<Rightarrow> string" where
  "strip s = rev (dropWhile is_space (rev (dropWhile is_space s)))"

definition farewell :: string where
  "farewell = ''Thanks for playing!''"

section \<open>Bets and moves\<close>

text \<open>
  \<^verbatim>\<open>getBet\<close>. Python's \<^verbatim>\<open>float\<close> is a builtin, not code of the repository: it is the
  parameter \<open>fl\<close>, which gives \<open>None\<close> where \<^verbatim>\<open>float\<close> raises \<^verbatim>\<open>ValueError\<close>.
  \<open>rebet\<close> is the inner \<^verbatim>\<open>while bet > maxBet or bet < 0.5\<close> loop, which reads the next
  line as it is typed (no \<^verbatim>\<open>upper\<close>, no \<^verbatim>\<open>strip\<close>, no test for QUIT). The outer
  \<^verbatim>\<open>while True\<close> never runs a second time: its body ends in \<^verbatim>\<open>return\<close> or
  \<^verbatim>\<open>sys.exit()\<close>.
\<close>

fun rebet :: "(string \<Rightarrow> real option) \<Rightarrow> real \<Rightarrow> real \<Rightarrow> string list
    \<Rightarrow> halt + real \<times> string list" where
  "rebet fl maxBet bet [] =
     (if bet > maxBet \<or> bet < 0.5 then Inl EOFError else Inr (bet, []))"
| "rebet fl maxBet bet (s # rest) =
     (if bet > maxBet \<or> bet < 0.5
      then (case fl s of None \<Rightarrow> Inl ValueError | Some b \<Rightarrow> rebet fl maxBet b rest)
      else Inr (bet, s # rest))"

definition getBet :: "(string \<Rightarrow> real option) \<Rightarrow> real \<Rightarrow> string list
    \<Rightarrow> halt + real \<times> string list" where
  "getBet fl maxBet ins =
     (case input ins of
        Inl e \<Rightarrow> Inl e
      | Inr (s, rest) \<Rightarrow>
          (let bet = strip (upper s) in
           if bet = ''QUIT'' then Inl (SysExit farewell 0)
           else (case fl bet of
                   None \<Rightarrow> Inl ValueError
                 | Some b \<Rightarrow> rebet fl maxBet b rest)))"

text \<open>
  \<^verbatim>\<open>getMove\<close>: the set of moves offered, and the loop that reads lines until one is an
  accepted move. The player's name only appears in the prompt and is left out.
\<close>

definition moves :: "PokerCard list \<Rightarrow> real \<Rightarrow> string set" where
  "moves cards money =
     {''(H)it'', ''(S)tand''} \<union>
     (if length cards = 2 \<and> money > 0 then {''(D)ouble down''} else {})"

fun getMove :: "PokerCard list \<Rightarrow> real \<Rightarrow> string list \<Rightarrow> halt + string \<times> string list" where
  "getMove cards money [] = Inl EOFError"
| "getMove cards money (s # rest) =
     (let move = strip (upper s) in
      if move \<in> {''H'', ''S''} then Inr (move, rest)
      else if move = ''D'' \<and> ''(D)ouble down'' \<in> moves cards money then Inr (move, rest)
      else getMove cards money rest)"

section \<open>The deck\<close>

text \<open>
  \<^verbatim>\<open>DeckofCards\<close>: the constructor appends the 13 values of each suit in turn and then
  shuffles, so a new deck is any arrangement of \<open>unshuffled\<close>. \<^verbatim>\<open>deal\<close> is
  \<^verbatim>\<open>popleft\<close>, which raises \<^verbatim>\<open>IndexError\<close> on an empty deque; \<^verbatim>\<open>discard\<close> is
  \<^verbatim>\<open>extend\<close>.
\<close>

definition unshuffled :: "PokerCard list" where
  "unshuffled =
     concat (map (\<lambda>s. map (new_card s) [2, 3, 4, 5, 6, 7, 8, 9, 10, 11, 12, 13, 14])
       [HEARTS, DIAMONDS, SPADES, CLUBS])"

definition DeckofCards :: "PokerCard list \<Rightarrow> bool" where
  "DeckofCards deck \<longleftrightarrow> mset deck = mset unshuffled"

definition deal :: "PokerCard list \<Rightarrow> halt + PokerCard \<times> PokerCard list" where
  "deal deck = (case deck of [] \<Rightarrow> Inl IndexError | c # rest \<Rightarrow> Inr (c, rest))"

definition discard :: "PokerCard list \<Rightarrow> PokerCard list \<Rightarrow> PokerCard list" where
  "discard deck oldcards = deck @ oldcards"

text \<open>
  The card population: the faces of the cards in the deck and in the two hands together
  are those of the 52 cards of a new deck, each as often.
\<close>

definition full_table :: "PokerCard list \<Rightarrow> PokerCard list \<Rightarrow> PokerCard list \<Rightarrow> bool" where
  "full_table deck dealerHand userHand \<longleftrightarrow>
     mset (map face (deck @ dealerHand @ userHand)) = mset (map face unshuffled)"

text \<open>
  \<^verbatim>\<open>displayCards\<close> prints, and with \<^verbatim>\<open>showDealer\<close> it also replaces the first card of
  the first hand by its flipped self (\<^verbatim>\<open>firstSet[0]\<close> raises \<^verbatim>\<open>IndexError\<close> on an
  empty hand). The result is the first hand afterwards.
\<close>

definition displayCards :: "PokerCard list \<Rightarrow> PokerCard list \<Rightarrow> bool \<Rightarrow> halt + PokerCard list" where
  "displayCards firstSet secondSet showDealer =
     (if showDealer
      then (case firstSet of [] \<Rightarrow> Inl IndexError | c # rest \<Rightarrow> Inr (flip c # rest))
      else Inr firstSet)"

section \<open>One round\<close>

text \<open>What each reading function leaves on the console is shorter than what it found.\<close>

lemma input_shorter: "input ins = Inr (s, rest) \<Longrightarrow> length rest < length ins"
  by (auto simp: input_def split: list.splits)

lemma rebet_shorter: "rebet fl maxBet bet ins = Inr (b, rest) \<Longrightarrow> length rest \<le> length ins"
  by (induction fl maxBet bet ins rule: rebet.induct)
     (auto split: if_splits option.splits)

lemma getBet_shorter: "getBet fl maxBet ins = Inr (b, rest) \<Longrightarrow> length rest < length ins"
  by (auto simp: getBet_def input_def Let_def split: list.splits if_splits option.splits
      dest: rebet_shorter)

lemma getMove_shorter: "getMove cards money ins = Inr (m, rest) \<Longrightarrow> length rest < length ins"
  by (induction cards money ins rule: getMove.induct)
     (auto simp: Let_def split: if_splits)

lemma deal_shorter: "deal deck = Inr (c, rest) \<Longrightarrow> length rest < length deck"
  by (auto simp: deal_def split: list.splits)

text \<open>
  The opening deal of \<^verbatim>\<open>main\<close>:
  \<^verbatim>\<open>dealerHand = [deck.deal().flip(), deck.deal()]\<close> and
  \<^verbatim>\<open>userHand = [deck.deal(), deck.deal()]\<close>. The result is the dealer's hand, the
  player's hand and the deck.
\<close>

definition dealHands :: "PokerCard list
    \<Rightarrow> halt + PokerCard list \<times> PokerCard list \<times> PokerCard list" where
  "dealHands deck =
     (case deal deck of Inl e \<Rightarrow> Inl e | Inr (c1, deck1) \<Rightarrow>
      (case deal deck1 of Inl e \<Rightarrow> Inl e | Inr (c2, deck2) \<Rightarrow>
       (case deal deck2 of Inl e \<Rightarrow> Inl e | Inr (c3, deck3) \<Rightarrow>
        (case deal deck3 of Inl e \<Rightarrow> Inl e | Inr (c4, deck4) \<Rightarrow>
           Inr ([flip c1, c2], [c3, c4], deck4)))))"

text \<open>
  The player's loop of \<^verbatim>\<open>main\<close> (\<^verbatim>\<open>while True: # Keep looping until player stands or
  busts\<close>). A \<^verbatim>\<open>break\<close> returns the player's hand, the bet, the deck and the console; a
  \<^verbatim>\<open>continue\<close> and the end of the body are the recursive calls. The calls of
  \<^verbatim>\<open>displayCards\<close> in the loop pass \<^verbatim>\<open>False\<close> and only print.
\<close>

function playerTurn :: "(string \<Rightarrow> real option) \<Rightarrow> real \<Rightarrow> PokerCard list \<Rightarrow> real
    \<Rightarrow> PokerCard list \<Rightarrow> string list
    \<Rightarrow> halt + PokerCard list \<times> real \<times> PokerCard list \<times> string list" where
  "playerTurn fl userMoney userHand bet deck ins =
     (if handValue userHand > 21 then Inr (userHand, bet, deck, ins)
      else if handValue userHand = 21 then Inr (userHand, bet, deck, ins)
      else (case getMove userHand (userMoney - bet) ins of
        Inl e \<Rightarrow> Inl e
      | Inr (userMove, ins1) \<Rightarrow>
          (case (if userMove = ''D''
                 then (case getBet fl (min bet (userMoney - bet)) ins1 of
                         Inl e \<Rightarrow> Inl e
                       | Inr (additionalBet, ins2) \<Rightarrow> Inr (bet + additionalBet, ins2))
                 else Inr (bet, ins1)) of
             Inl e \<Rightarrow> Inl e
           | Inr (bet1, ins2) \<Rightarrow>
               (if userMove \<in> {''H'', ''D''}
                then (case deal deck of
                        Inl e \<Rightarrow> Inl e
                      | Inr (newCard, deck1) \<Rightarrow>
                          (if handValue (userHand @ [newCard]) > 21
                           then playerTurn fl userMoney (userHand @ [newCard]) bet1 deck1 ins2
                           else if userMove \<in> {''S'', ''D''}
                           then Inr (userHand @ [newCard], bet1, deck1, ins2)
                           else playerTurn fl userMoney (userHand @ [newCard]) bet1 deck1 ins2))
                else if userMove \<in> {''S'', ''D''} then Inr (userHand, bet1, deck, ins2)
                else playerTurn fl userMoney userHand bet1 deck ins2))))"
  by pat_completeness auto
termination
  apply (relation "measure (\<lambda>(fl, userMoney, userHand, bet, deck, ins). length ins)")
     apply (auto split: if_splits sum.splits dest!: getMove_shorter getBet_shorter)
  done

declare playerTurn.simps [simp del]

text \<open>
  The dealer's loop (\<^verbatim>\<open>while handValue(dealerHand) < 17\<close>, with its \<^verbatim>\<open>break\<close> on a
  bust) and the \<^verbatim>\<open>if handValue(dealerHand) <= 21\<close> around it. Each hit is followed by
  an \<^verbatim>\<open>input\<close> (Press Enter to continue).
\<close>

function dealerLoop :: "PokerCard list \<Rightarrow> PokerCard list \<Rightarrow> string list
    \<Rightarrow> halt + PokerCard list \<times> PokerCard list \<times> string list" where
  "dealerLoop dealerHand deck ins =
     (if handValue dealerHand < 17
      then (case deal deck of
              Inl e \<Rightarrow> Inl e
            | Inr (c, deck1) \<Rightarrow>
                (case input ins of
                   Inl e \<Rightarrow> Inl e
                 | Inr (s, ins1) \<Rightarrow>
                     (if handValue (dealerHand @ [c]) > 21
                      then Inr (dealerHand @ [c], deck1, ins1)
                      else dealerLoop (dealerHand @ [c]) deck1 ins1)))
      else Inr (dealerHand, deck, ins))"
  by pat_completeness auto
termination
  apply (relation "measure (\<lambda>(dealerHand, deck, ins). length deck)")
   apply (auto dest!: deal_shorter)
  done

declare dealerLoop.simps [simp del]

definition dealerTurn :: "PokerCard list \<Rightarrow> PokerCard list \<Rightarrow> string list
    \<Rightarrow> halt + PokerCard list \<times> PokerCard list \<times> string list" where
  "dealerTurn dealerHand deck ins =
     (if handValue dealerHand \<le> 21 then dealerLoop dealerHand deck ins
      else Inr (dealerHand, deck, ins))"

text \<open>
  A round of \<^verbatim>\<open>main\<close> from the bet to the final display of the hands: the bet, the
  opening deal, the player's loop, the \<^verbatim>\<open>input\<close> before the dealer plays, the dealer's
  turn, and \<^verbatim>\<open>displayCards(dealerHand, userHand, True)\<close>. The result is the local state
  at that point: the bet, both hands, the deck and the console.
\<close>

definition playHands :: "(string \<Rightarrow> real option) \<Rightarrow> real \<Rightarrow> PokerCard list \<Rightarrow> string list
    \<Rightarrow> halt + real \<times> PokerCard list \<times> PokerCard list \<times> PokerCard list \<times> string list" where
  "playHands fl userMoney deck ins =
     (case getBet fl userMoney ins of Inl e \<Rightarrow> Inl e | Inr (bet, ins1) \<Rightarrow>
      (case dealHands deck of Inl e \<Rightarrow> Inl e | Inr (dealerHand, userHand, deck1) \<Rightarrow>
       (case playerTurn fl userMoney userHand bet deck1 ins1 of
          Inl e \<Rightarrow> Inl e
        | Inr (userHand1, bet1, deck2, ins2) \<Rightarrow>
       (case input ins2 of Inl e \<Rightarrow> Inl e | Inr (s, ins3) \<Rightarrow>
        (case dealerTurn dealerHand deck2 ins3 of
           Inl e \<Rightarrow> Inl e
         | Inr (dealerHand1, deck3, ins4) \<Rightarrow>
        (case displayCards dealerHand1 userHand1 True of
           Inl e \<Rightarrow> Inl e
         | Inr dealerHand2 \<Rightarrow> Inr (bet1, dealerHand2, userHand1, deck3, ins4)))))))"

text \<open>
  The whole round: after the final display come the settlement, the discard of both hands
  (\<^verbatim>\<open>deck.discard(dealerHand + userHand)\<close>) and a last \<^verbatim>\<open>input\<close>. The hands are not
  read again before the next round rebinds them, so the result is the bankroll, the deck
  and the console.
\<close>

definition playRound :: "(string \<Rightarrow> real option) \<Rightarrow> real \<Rightarrow> PokerCard list \<Rightarrow> string list
    \<Rightarrow> halt + real \<times> PokerCard list \<times> string list" where
  "playRound fl userMoney deck ins =
     (case playHands fl userMoney deck ins of
        Inl e \<Rightarrow> Inl e
      | Inr (bet, dealerHand, userHand, deck1, ins1) \<Rightarrow>
          (let finalUserVal = handValue userHand;
               finalDealVal = handValue dealerHand;
               userMoney1 = settle userMoney bet finalUserVal finalDealVal;
               deck2 = discard deck1 (dealerHand @ userHand)
           in (case input ins1 of
                 Inl e \<Rightarrow> Inl e
               | Inr (s, ins2) \<Rightarrow> Inr (userMoney1, deck2, ins2))))"

section \<open>The session\<close>

text \<open>
  The start of the body of \<^verbatim>\<open>while True\<close> in \<^verbatim>\<open>main\<close>: a player without money is
  asked (until the answer is Y or N) whether to buy back in, and for an amount of at least
  0.50.
\<close>

fun askKeepPlaying :: "string list \<Rightarrow> halt + string \<times> string list" where
  "askKeepPlaying [] = Inl EOFError"
| "askKeepPlaying (s # rest) =
     (let keepPlaying = strip (upper s) in
      if keepPlaying \<noteq> ''N'' \<and> keepPlaying \<noteq> ''Y'' then askKeepPlaying rest
      else Inr (keepPlaying, rest))"

fun askMoreMoney :: "(string \<Rightarrow> real option) \<Rightarrow> string list \<Rightarrow> halt + real \<times> string list" where
  "askMoreMoney fl [] = Inl EOFError"
| "askMoreMoney fl (s # rest) =
     (case fl s of
        None \<Rightarrow> Inl ValueError
      | Some moreMoney \<Rightarrow>
          if moreMoney < 0.5 then askMoreMoney fl rest else Inr (moreMoney, rest))"

definition buyBack :: "(string \<Rightarrow> real option) \<Rightarrow> real \<Rightarrow> string list
    \<Rightarrow> halt + real \<times> string list" where
  "buyBack fl userMoney ins =
     (if userMoney \<le> 0
      then (case askKeepPlaying ins of
              Inl e \<Rightarrow> Inl e
            | Inr (keepPlaying, ins1) \<Rightarrow>
                if keepPlaying = ''N'' then Inl (SysExit farewell 0)
                else (case askMoreMoney fl ins1 of
                        Inl e \<Rightarrow> Inl e
                      | Inr (moreMoney, ins2) \<Rightarrow> Inr (userMoney + moreMoney, ins2)))
      else Inr (userMoney, ins))"

text \<open>
  One pass through the body of \<^verbatim>\<open>while True\<close>, on the variables that live across
  rounds (\<^verbatim>\<open>userMoney\<close>, \<^verbatim>\<open>deck\<close>, \<^verbatim>\<open>roundcount\<close>) and the console; \<open>rounds n\<close> is
  \<open>n\<close> passes. The loop has no exit of its own: \<^verbatim>\<open>main\<close> ends by \<^verbatim>\<open>sys.exit()\<close>
  or by an exception.
\<close>

definition loopBody :: "(string \<Rightarrow> real option) \<Rightarrow> real \<times> PokerCard list \<times> nat \<times> string list
    \<Rightarrow> halt + real \<times> PokerCard list \<times> nat \<times> string list" where
  "loopBody fl st =
     (case st of (userMoney, deck, roundcount, ins) \<Rightarrow>
      (case buyBack fl userMoney ins of
         Inl e \<Rightarrow> Inl e
       | Inr (userMoney1, ins1) \<Rightarrow>
           (case playRound fl userMoney1 deck ins1 of
              Inl e \<Rightarrow> Inl e
            | Inr (userMoney2, deck1, ins2) \<Rightarrow> Inr (userMoney2, deck1, roundcount + 1, ins2))))"

fun rounds :: "(string \<Rightarrow> real option) \<Rightarrow> nat \<Rightarrow> real \<times> PokerCard list \<times> nat \<times> string list
    \<Rightarrow> halt + real \<times> PokerCard list \<times> nat \<times> string list" where
  "rounds fl 0 st = Inr st"
| "rounds fl (Suc n) st =
     (case loopBody fl st of Inl e \<Rightarrow> Inl e | Inr st1 \<Rightarrow> rounds fl n st1)"

text \<open>
  The first lines of \<^verbatim>\<open>main\<close>: the player's name, the money to play with, a new deck
  (the argument \<open>deck\<close>, an arrangement of the 52 cards), and round 1.
\<close>

definition start :: "(string \<Rightarrow> real option) \<Rightarrow> PokerCard list \<Rightarrow> string list
    \<Rightarrow> halt + real \<times> PokerCard list \<times> nat \<times> string list" where
  "start fl deck ins =
     (case input ins of
        Inl e \<Rightarrow> Inl e
      | Inr (userName, ins1) \<Rightarrow>
          (case input ins1 of
             Inl e \<Rightarrow> Inl e
           | Inr (s, ins2) \<Rightarrow>
               (case fl s of
                  None \<Rightarrow> Inl ValueError
                | Some userMoney \<Rightarrow> Inr (userMoney, deck, 1, ins2))))"

section \<open>A reading of plain decimal numbers\<close>

text \<open>
  The worked examples below need one concrete \<open>fl\<close>. \<open>float_plain\<close> reads an unsigned
  decimal numeral (digits, at most one point). Python's \<^verbatim>\<open>float\<close> gives the same number
  for such a string, up to the rounding of its binary representation, and also raises
  \<^verbatim>\<open>ValueError\<close> on the other strings the examples use (words such as QUIT).
\<close>

fun dec_nat :: "nat \<Rightarrow> string \<Rightarrow> nat option" where
  "dec_nat acc [] = Some acc"
| "dec_nat acc (c # cs) =
     (if 48 \<le> (of_char c :: nat) \<and> (of_char c :: nat) \<le> 57
      then dec_nat (10 * acc + ((of_char c :: nat) - 48)) cs else None)"

definition float_plain :: "string \<Rightarrow> real option" where
  "float_plain s =
     (let ip = takeWhile (\<lambda>c. c \<noteq> CHR ''.'') s; fp = drop (length ip + 1) s
      in if ip = [] \<and> fp = [] then None
         else (case (dec_nat 0 ip, dec_nat 0 fp) of
                 (Some a, Some b) \<Rightarrow> Some (real a + real b / 10 ^ length fp)
               | _ \<Rightarrow> None))"

section \<open>Properties\<close>

subsection \<open>Hand value\<close>

lemma count_cards_eq:
  "count_cards cards tot aces = (tot + hard cards, aces + aces_of cards)"
  by (induction cards arbitrary: tot aces) (auto simp: hard_def aces_of_def)

lemma add_aces_eq: "add_aces n t = t + 10 * int (min n (nat ((21 - t) div 10)))"
proof (induction n arbitrary: t)
  case 0
  then show ?case by simp
next
  case (Suc n)
  show ?case
  proof (cases "t + 10 \<le> 21")
    case True
    then have "nat ((21 - t) div 10) = Suc (nat ((21 - (t + 10)) div 10))"
      by linarith
    with True Suc show ?thesis by simp
  next
    case False
    then have "nat ((21 - t) div 10) = 0" by simp
    with False Suc show ?thesis by simp
  qed
qed

lemma handValue_eq:
  "handValue cards =
     hard cards + int (aces_of cards)
       + 10 * int (min (aces_of cards) (nat ((21 - (hard cards + int (aces_of cards))) div 10)))"
  by (simp add: handValue_def count_cards_eq add_aces_eq)

lemma set_ace_totals:
  "set (ace_totals cards) = (\<lambda>k. hard cards + int (aces_of cards) + 10 * int k) ` {..aces_of cards}"
proof (induction cards)
  case Nil
  then show ?case by (simp add: hard_def aces_of_def)
next
  case (Cons c cards)
  let ?b = "hard cards + int (aces_of cards)"
  show ?case
  proof (cases "cvalue c = 14")
    case False
    then have h: "hard (c # cards) = min 10 (cvalue c) + hard cards" "aces_of (c # cards) = aces_of cards"
      by (simp_all add: hard_def aces_of_def)
    from False have "set (ace_totals (c # cards)) = (\<lambda>t. min 10 (cvalue c) + t) ` set (ace_totals cards)"
      by simp
    also have "\<dots> = (\<lambda>k. hard (c # cards) + int (aces_of (c # cards)) + 10 * int k) ` {..aces_of (c # cards)}"
      unfolding Cons.IH h by (simp add: image_image add.assoc)
    finally show ?thesis .
  next
    case True
    then have h: "hard (c # cards) = hard cards" "aces_of (c # cards) = Suc (aces_of cards)"
      by (simp_all add: hard_def aces_of_def)
    from True have "set (ace_totals (c # cards)) =
        (\<lambda>t. 1 + t) ` set (ace_totals cards) \<union> (\<lambda>t. 11 + t) ` set (ace_totals cards)"
      by simp
    also have "\<dots> = (\<lambda>k. ?b + 1 + 10 * int k) ` {..aces_of cards}
           \<union> (\<lambda>k. ?b + 1 + 10 * int (Suc k)) ` {..aces_of cards}"
      unfolding Cons.IH by (simp add: image_image algebra_simps)
    also have "(\<lambda>k. ?b + 1 + 10 * int (Suc k)) ` {..aces_of cards}
        = (\<lambda>k. ?b + 1 + 10 * int k) ` (Suc ` {..aces_of cards})"
      by (simp add: image_image)
    also have "(\<lambda>k. ?b + 1 + 10 * int k) ` {..aces_of cards}
           \<union> (\<lambda>k. ?b + 1 + 10 * int k) ` (Suc ` {..aces_of cards})
         = (\<lambda>k. ?b + 1 + 10 * int k) ` ({..aces_of cards} \<union> Suc ` {..aces_of cards})"
      by (simp add: image_Un)
    also have "{..aces_of cards} \<union> Suc ` {..aces_of cards} = {..Suc (aces_of cards)}"
      by (auto simp: image_iff le_Suc_eq)
    finally show ?thesis by (simp add: h algebra_simps)
  qed
qed


lemma best_total_eq:
  "best_total cards =
     hard cards + int (aces_of cards)
       + 10 * int (min (aces_of cards) (nat ((21 - (hard cards + int (aces_of cards))) div 10)))"
proof -
  define b where "b = hard cards + int (aces_of cards)"
  define a where "a = aces_of cards"
  define q where "q = nat ((21 - b) div 10)"
  define j where "j = min a q"
  define S where "S = (\<lambda>k. b + 10 * int k) ` {..a}"
  have S: "set (ace_totals cards) = S"
    by (simp add: set_ace_totals a_def b_def S_def)
  have fin: "finite S" by (simp add: S_def)
  show ?thesis
  proof (cases "b \<le> 21")
    case True
    then have q: "int q = (21 - b) div 10" by (simp add: q_def)
    have "int j \<le> int q" by (simp add: j_def)
    then have "10 * int j \<le> 21 - b" using q by linarith
    moreover have "j \<le> a" by (simp add: j_def)
    ultimately have jin: "b + 10 * int j \<in> {t \<in> S. t \<le> 21}"
      by (simp add: S_def)
    have jmax: "t \<le> b + 10 * int j" if "t \<in> {t \<in> S. t \<le> 21}" for t
    proof -
      from that obtain k where k: "k \<le> a" "t = b + 10 * int k" "t \<le> 21"
        by (auto simp: S_def)
      then have "int k \<le> (21 - b) div 10" by linarith
      then have "k \<le> q" using q by linarith
      with k have "k \<le> j" by (simp add: j_def)
      with k show ?thesis by simp
    qed
    have "finite {t \<in> S. t \<le> 21}" using fin by simp
    then have "Max {t \<in> S. t \<le> 21} = b + 10 * int j"
    proof (rule Max_eqI)
      show "\<And>y. y \<in> {t \<in> S. t \<le> 21} \<Longrightarrow> y \<le> b + 10 * int j" by (rule jmax)
      show "b + 10 * int j \<in> {t \<in> S. t \<le> 21}" by (rule jin)
    qed
    moreover have "set (filter (\<lambda>t. t \<le> 21) (ace_totals cards)) = {t \<in> S. t \<le> 21}"
      using S by simp
    moreover have "filter (\<lambda>t. t \<le> 21) (ace_totals cards) \<noteq> []"
      using jin S by (auto simp: filter_empty_conv)
    ultimately have "best_total cards = b + 10 * int j"
      by (simp add: best_total_def Let_def del: set_filter)
    then show ?thesis by (simp add: j_def q_def a_def b_def)
  next
    case False
    then have none: "filter (\<lambda>t. t \<le> 21) (ace_totals cards) = []"
      using S by (auto simp: filter_empty_conv S_def)
    have "b \<in> S" by (auto simp: S_def image_iff)
    moreover have "\<And>t. t \<in> S \<Longrightarrow> b \<le> t" by (auto simp: S_def)
    ultimately have "Min S = b" using fin by (intro Min_eqI) auto
    moreover from False have "j = 0" by (simp add: j_def q_def)
    ultimately have "best_total cards = b + 10 * int j"
      using S by (simp add: best_total_def Let_def none)
    then show ?thesis by (simp add: j_def q_def a_def b_def)
  qed
qed

lemma hard_mset:
  assumes "mset xs = mset ys"
  shows "hard xs = hard ys"
proof -
  define f :: "PokerCard \<Rightarrow> int" where "f = (\<lambda>c. if cvalue c \<noteq> 14 then min 10 (cvalue c) else 0)"
  have "hard zs = sum_mset (image_mset f (mset zs))" for zs
  proof -
    have "sum_list (map f zs) = sum_mset (mset (map f zs))"
      by (simp only: sum_mset_sum_list)
    then show ?thesis by (simp add: hard_def f_def)
  qed
  with assms show ?thesis by simp
qed

lemma aces_of_mset:
  assumes "mset xs = mset ys"
  shows "aces_of xs = aces_of ys"
proof -
  define P :: "PokerCard \<Rightarrow> bool" where "P = (\<lambda>c. cvalue c = 14)"
  have "aces_of zs = size (filter_mset P (mset zs))" for zs
  proof -
    have "length (filter P zs) = size (mset (filter P zs))"
      by (simp only: size_mset)
    then show ?thesis by (simp add: aces_of_def P_def)
  qed
  with assms show ?thesis by simp
qed

text \<open>
  Claim C2. For every hand, \<open>handValue\<close> is the greatest total at most 21 among those
  obtained by counting each ace as 1 or 11 and every other card as \<^verbatim>\<open>min(10, value)\<close>,
  or the least such total when all of them exceed 21; it does not depend on the order of
  the cards; the empty hand is worth 0; and a bust total is returned as it is (10, 10, 5
  gives 25). The statement holds for all card values, in particular for those from 2 to 14.
\<close>

theorem handValue_best_total:
  "handValue cards = best_total cards \<and>
   (mset cards' = mset cards \<longrightarrow> handValue cards' = handValue cards) \<and>
   handValue [] = 0 \<and>
   handValue [new_card s1 10, new_card s2 10, new_card s3 5] = 25"
proof -
  have "handValue cards = best_total cards"
    by (simp add: handValue_eq best_total_eq)
  moreover have "mset cards' = mset cards \<longrightarrow> handValue cards' = handValue cards"
    using hard_mset [of cards' cards] aces_of_mset [of cards' cards]
    by (simp add: handValue_eq)
  moreover have "handValue [] = 0"
    by (simp add: handValue_def)
  moreover have "handValue [new_card s1 10, new_card s2 10, new_card s3 5] = 25"
    by (simp add: handValue_def new_card_def)
  ultimately show ?thesis by blast
qed

theorem handValue_best_total_witness:
  "handValue [new_card HEARTS 14, new_card SPADES 14, new_card CLUBS 9] = 21 \<and>
   best_total [new_card HEARTS 14, new_card SPADES 14, new_card CLUBS 9] = 21 \<and>
   mset [new_card CLUBS 9, new_card HEARTS 14, new_card SPADES 14]
     = mset [new_card HEARTS 14, new_card SPADES 14, new_card CLUBS 9] \<and>
   handValue [new_card CLUBS 9, new_card HEARTS 14, new_card SPADES 14] = 21"
proof -
  have v: "handValue [new_card HEARTS 14, new_card SPADES 14, new_card CLUBS 9] = 21"
    by (simp add: handValue_def new_card_def)
  have m: "mset [new_card CLUBS 9, new_card HEARTS 14, new_card SPADES 14]
     = mset [new_card HEARTS 14, new_card SPADES 14, new_card CLUBS 9]"
    by simp
  from handValue_best_total [of "[new_card HEARTS 14, new_card SPADES 14, new_card CLUBS 9]"
      "[new_card CLUBS 9, new_card HEARTS 14, new_card SPADES 14]"] v m
  show ?thesis by metis
qed

subsection \<open>Settlement\<close>

text \<open>
  Claim C8. When neither final total exceeds 21, settlement adds the bet to the bankroll if
  the player's total is the greater, subtracts it if the player's total is the smaller, and
  leaves the bankroll unchanged on equal totals.
\<close>

theorem settle_no_bust:
  "u \<le> 21 \<Longrightarrow> d \<le> 21 \<Longrightarrow>
     (u > d \<longrightarrow> settle m b u d = m + b) \<and>
     (u < d \<longrightarrow> settle m b u d = m - b) \<and>
     (u = d \<longrightarrow> settle m b u d = m)"
  by (simp add: settle_def)

theorem settle_no_bust_witness:
  "settle 10 2 20 19 = 12 \<and> settle 10 2 18 19 = 8 \<and> settle 10 2 20 20 = 10"
  using settle_no_bust [of 20 19 10 2] settle_no_bust [of 18 19 10 2]
    settle_no_bust [of 20 20 10 2]
  by simp

subsection \<open>Steps of the loops\<close>

lemma getMove_result:
  "getMove cards money ins = Inr (m, rest) \<Longrightarrow> m = ''H'' \<or> m = ''S'' \<or> m = ''D''"
  by (induction cards money ins rule: getMove.induct)
     (auto simp: Let_def split: if_splits)

lemma playerTurn_done:
  "21 \<le> handValue userHand \<Longrightarrow>
     playerTurn fl userMoney userHand bet deck ins = Inr (userHand, bet, deck, ins)"
  by (subst playerTurn.simps) auto

lemma playerTurn_stand:
  "handValue userHand < 21 \<Longrightarrow> getMove userHand (userMoney - bet) ins = Inr (''S'', ins1) \<Longrightarrow>
     playerTurn fl userMoney userHand bet deck ins = Inr (userHand, bet, deck, ins1)"
  by (subst playerTurn.simps) simp

lemma playerTurn_hit:
  "handValue userHand < 21 \<Longrightarrow> getMove userHand (userMoney - bet) ins = Inr (''H'', ins1) \<Longrightarrow>
     playerTurn fl userMoney userHand bet deck ins =
       (case deal deck of
          Inl e \<Rightarrow> Inl e
        | Inr (newCard, deck1) \<Rightarrow> playerTurn fl userMoney (userHand @ [newCard]) bet deck1 ins1)"
  by (subst playerTurn.simps) (simp split: sum.splits)

lemma playerTurn_double:
  "handValue userHand < 21 \<Longrightarrow> getMove userHand (userMoney - bet) ins = Inr (''D'', ins1) \<Longrightarrow>
     playerTurn fl userMoney userHand bet deck ins =
       (case getBet fl (min bet (userMoney - bet)) ins1 of
          Inl e \<Rightarrow> Inl e
        | Inr (additionalBet, ins2) \<Rightarrow>
            (case deal deck of
               Inl e \<Rightarrow> Inl e
             | Inr (newCard, deck1) \<Rightarrow>
                 Inr (userHand @ [newCard], bet + additionalBet, deck1, ins2)))"
  by (subst playerTurn.simps) (simp add: playerTurn_done split: sum.splits)

lemma playerTurn_fail:
  "handValue userHand < 21 \<Longrightarrow> getMove userHand (userMoney - bet) ins = Inl e \<Longrightarrow>
     playerTurn fl userMoney userHand bet deck ins = Inl e"
  by (subst playerTurn.simps) simp

lemma rebet_range:
  "rebet fl maxBet bet ins = Inr (b, rest) \<Longrightarrow> 0.5 \<le> b \<and> b \<le> maxBet"
  by (induction fl maxBet bet ins rule: rebet.induct) (auto split: option.splits if_splits)

lemma getBet_range:
  "getBet fl maxBet ins = Inr (b, rest) \<Longrightarrow> 0.5 \<le> b \<and> b \<le> maxBet"
  by (auto simp: getBet_def input_def Let_def split: list.splits if_splits option.splits
      dest: rebet_range)

lemma double_offered:
  "''(D)ouble down'' \<in> moves cards money \<longleftrightarrow> length cards = 2 \<and> 0 < money"
  by (simp add: moves_def)

lemma getMove_double_ok:
  "getMove cards money ins = Inr (''D'', rest) \<Longrightarrow> length cards = 2 \<and> 0 < money"
  by (induction cards money ins rule: getMove.induct)
     (auto simp: Let_def double_offered split: if_splits)

lemma playerTurn_invariant:
  assumes "playerTurn fl userMoney userHand bet deck ins = Inr (userHand', bet', deck', ins')"
    and "P userHand bet deck"
    and hit: "\<And>u b k c k1. P u b k \<Longrightarrow> deal k = Inr (c, k1) \<Longrightarrow> P (u @ [c]) b k1"
    and dbl: "\<And>u b k c k1 x. P u b k \<Longrightarrow> deal k = Inr (c, k1) \<Longrightarrow> length u = 2 \<Longrightarrow>
                0 < userMoney - b \<Longrightarrow> 0.5 \<le> x \<Longrightarrow> x \<le> min b (userMoney - b) \<Longrightarrow>
                P (u @ [c]) (b + x) k1"
  shows "P userHand' bet' deck'"
  using assms(1,2)
proof (induction "length ins" arbitrary: userHand bet deck ins rule: less_induct)
  case less
  show ?case
  proof (cases "21 \<le> handValue userHand")
    case True
    with less.prems show ?thesis by (simp add: playerTurn_done)
  next
    case False
    then have lt: "handValue userHand < 21" by simp
    show ?thesis
    proof (cases "getMove userHand (userMoney - bet) ins")
      case (Inl e)
      with lt less.prems show ?thesis by (simp add: playerTurn_fail)
    next
      case (Inr r)
      obtain m ins1 where r: "r = (m, ins1)" by (cases r)
      with Inr have gm: "getMove userHand (userMoney - bet) ins = Inr (m, ins1)" by simp
      from getMove_result [OF gm] consider "m = ''S''" | "m = ''H''" | "m = ''D''" by blast
      then show ?thesis
      proof cases
        case 1
        with lt gm less.prems show ?thesis by (simp add: playerTurn_stand)
      next
        case 2
        with lt gm have eq: "playerTurn fl userMoney userHand bet deck ins =
          (case deal deck of Inl e \<Rightarrow> Inl e
           | Inr (newCard, deck1) \<Rightarrow> playerTurn fl userMoney (userHand @ [newCard]) bet deck1 ins1)"
          by (simp add: playerTurn_hit)
        with less.prems(1) obtain c k1 where d: "deal deck = Inr (c, k1)"
          and rec: "playerTurn fl userMoney (userHand @ [c]) bet k1 ins1
                      = Inr (userHand', bet', deck', ins')"
          by (auto split: sum.splits)
        from getMove_shorter [OF gm] have "length ins1 < length ins" .
        moreover from hit [OF less.prems(2) d] have "P (userHand @ [c]) bet k1" .
        ultimately show ?thesis using less.hyps rec by blast
      next
        case 3
        with lt gm have eq: "playerTurn fl userMoney userHand bet deck ins =
          (case getBet fl (min bet (userMoney - bet)) ins1 of Inl e \<Rightarrow> Inl e
           | Inr (additionalBet, ins2) \<Rightarrow>
              (case deal deck of Inl e \<Rightarrow> Inl e
               | Inr (newCard, deck1) \<Rightarrow>
                   Inr (userHand @ [newCard], bet + additionalBet, deck1, ins2)))"
          by (simp add: playerTurn_double)
        with less.prems(1) obtain x ins2 c k1 where
          gb: "getBet fl (min bet (userMoney - bet)) ins1 = Inr (x, ins2)"
          and d: "deal deck = Inr (c, k1)"
          and res: "userHand' = userHand @ [c]" "bet' = bet + x" "deck' = k1"
          by (auto split: sum.splits)
        from gm 3 have el: "length userHand = 2 \<and> 0 < userMoney - bet"
          using getMove_double_ok by blast
        from getBet_range [OF gb] el dbl [OF less.prems(2) d] res show ?thesis by simp
      qed
    qed
  qed
qed


lemma dealerLoop_stop:
  "17 \<le> handValue dealerHand \<Longrightarrow> dealerLoop dealerHand deck ins = Inr (dealerHand, deck, ins)"
  by (subst dealerLoop.simps) simp

lemma dealerLoop_hit:
  "handValue dealerHand < 17 \<Longrightarrow>
     dealerLoop dealerHand deck ins =
       (case deal deck of
          Inl e \<Rightarrow> Inl e
        | Inr (c, deck1) \<Rightarrow>
            (case input ins of
               Inl e \<Rightarrow> Inl e
             | Inr (s, ins1) \<Rightarrow>
                 (if handValue (dealerHand @ [c]) > 21 then Inr (dealerHand @ [c], deck1, ins1)
                  else dealerLoop (dealerHand @ [c]) deck1 ins1)))"
  by (subst dealerLoop.simps) simp

lemma deal_Inr: "deal deck = Inr (c, rest) \<longleftrightarrow> deck = c # rest"
  by (auto simp: deal_def split: list.splits)

lemma input_Inr: "input ins = Inr (s, rest) \<longleftrightarrow> ins = s # rest"
  by (auto simp: input_def split: list.splits)

lemma dealerLoop_result:
  "dealerLoop dealerHand deck ins = Inr (dealerHand', deck', ins') \<Longrightarrow>
     \<exists>n. n \<le> length deck \<and> dealerHand' = dealerHand @ take n deck \<and> deck' = drop n deck \<and>
         ins' = drop n ins \<and> (\<forall>j<n. handValue (dealerHand @ take j deck) < 17) \<and>
         17 \<le> handValue dealerHand'"
proof (induction dealerHand deck ins rule: dealerLoop.induct)
  case (1 dealerHand deck ins)
  show ?case
  proof (cases "handValue dealerHand < 17")
    case False
    with "1.prems" have "dealerHand' = dealerHand" "deck' = deck" "ins' = ins"
      by (simp_all add: dealerLoop_stop)
    with False show ?thesis by (intro exI [of _ 0]) simp
  next
    case True
    with "1.prems" obtain c deck1 s ins1 where
      d: "deal deck = Inr (c, deck1)" and i: "input ins = Inr (s, ins1)"
      and res: "(if handValue (dealerHand @ [c]) > 21 then Inr (dealerHand @ [c], deck1, ins1)
                 else dealerLoop (dealerHand @ [c]) deck1 ins1) = Inr (dealerHand', deck', ins')"
      by (auto simp: dealerLoop_hit split: sum.splits)
    from d i have deck: "deck = c # deck1" and ins: "ins = s # ins1"
      by (simp_all add: deal_Inr input_Inr)
    show ?thesis
    proof (cases "handValue (dealerHand @ [c]) > 21")
      case bust: True
      with res have "dealerHand' = dealerHand @ [c]" "deck' = deck1" "ins' = ins1" by simp_all
      with bust True deck ins show ?thesis by (intro exI [of _ 1]) simp
    next
      case nobust: False
      with res have "dealerLoop (dealerHand @ [c]) deck1 ins1 = Inr (dealerHand', deck', ins')"
        by simp
      from "1.IH" [OF True d refl i refl nobust this] obtain n where
        n: "n \<le> length deck1" "dealerHand' = (dealerHand @ [c]) @ take n deck1"
           "deck' = drop n deck1" "ins' = drop n ins1"
           "\<forall>j<n. handValue ((dealerHand @ [c]) @ take j deck1) < 17"
           "17 \<le> handValue dealerHand'"
        by blast
      have "\<forall>j<Suc n. handValue (dealerHand @ take j deck) < 17"
      proof (intro allI impI)
        fix j assume "j < Suc n"
        show "handValue (dealerHand @ take j deck) < 17"
        proof (cases j)
          case 0
          with True show ?thesis by simp
        next
          case (Suc i)
          with \<open>j < Suc n\<close> n(5) deck show ?thesis by simp
        qed
      qed
      with n deck ins show ?thesis by (intro exI [of _ "Suc n"]) simp
    qed
  qed
qed

lemma dealerTurn_result:
  "dealerTurn dealerHand deck ins = Inr (dealerHand', deck', ins') \<Longrightarrow>
     \<exists>n. n \<le> length deck \<and> dealerHand' = dealerHand @ take n deck \<and> deck' = drop n deck \<and>
         ins' = drop n ins \<and> (\<forall>j<n. handValue (dealerHand @ take j deck) < 17) \<and>
         17 \<le> handValue dealerHand'"
proof (cases "handValue dealerHand \<le> 21")
  case True
  assume "dealerTurn dealerHand deck ins = Inr (dealerHand', deck', ins')"
  with True show ?thesis by (simp add: dealerTurn_def dealerLoop_result)
next
  case False
  assume "dealerTurn dealerHand deck ins = Inr (dealerHand', deck', ins')"
  with False have "dealerHand' = dealerHand" "deck' = deck" "ins' = ins"
    by (simp_all add: dealerTurn_def)
  with False show ?thesis by (intro exI [of _ 0]) simp
qed

lemma dealerLoop_returns:
  "n \<le> length deck \<Longrightarrow> n \<le> length ins \<Longrightarrow> 17 \<le> handValue (dealerHand @ take n deck) \<Longrightarrow>
     \<exists>r. dealerLoop dealerHand deck ins = Inr r"
proof (induction n arbitrary: dealerHand deck ins)
  case 0
  then show ?case by (simp add: dealerLoop_stop)
next
  case (Suc n)
  show ?case
  proof (cases "handValue dealerHand < 17")
    case False
    then show ?thesis by (simp add: dealerLoop_stop)
  next
    case True
    from Suc.prems obtain c deck1 s ins1 where deck: "deck = c # deck1" and ins: "ins = s # ins1"
      by (cases deck; cases ins) auto
    show ?thesis
    proof (cases "handValue (dealerHand @ [c]) > 21")
      case bust: True
      with True deck ins show ?thesis by (simp add: dealerLoop_hit deal_def input_def)
    next
      case False
      from Suc.prems deck ins have "\<exists>r. dealerLoop (dealerHand @ [c]) deck1 ins1 = Inr r"
        by (intro Suc.IH) simp_all
      with True False deck ins show ?thesis by (simp add: dealerLoop_hit deal_def input_def)
    qed
  qed
qed

lemma handValue_ge_length:
  assumes "\<forall>c\<in>set cards. 1 \<le> cvalue c"
  shows "int (length cards) \<le> handValue cards"
proof -
  from assms have "int (length cards) \<le> hard cards + int (aces_of cards)"
    by (induction cards) (auto simp: hard_def aces_of_def)
  then show ?thesis by (simp add: handValue_eq)
qed

subsection \<open>Settlement when the player has bust\<close>

text \<open>
  Claim C1. The claim asks that a player whose final total exceeds 21 loses the bet
  whatever the dealer's total. The settlement of \<^verbatim>\<open>main\<close> tests the dealer's bust first:
  with a player total of 23 and a dealer total of 24 it adds the bet to the bankroll. The
  case is reached in play: on the deck in constructor order (one of the arrangements the
  shuffle can leave), a bet of 5 out of 10 and two hits take the player to 22, the dealer
  draws to 22, and the round ends with a bankroll of 15.
\<close>

theorem settle_both_bust:
  "settle 10 2 23 24 = 12 \<and>
   playHands float_plain 10 unshuffled [''5'', ''H'', ''H'', [], [], []] =
     Inr (5, [new_card HEARTS 2, new_card HEARTS 3, new_card HEARTS 8, new_card HEARTS 9],
          [new_card HEARTS 4, new_card HEARTS 5, new_card HEARTS 6, new_card HEARTS 7],
          drop 8 unshuffled, []) \<and>
   handValue [new_card HEARTS 4, new_card HEARTS 5, new_card HEARTS 6, new_card HEARTS 7] = 22 \<and>
   handValue [new_card HEARTS 2, new_card HEARTS 3, new_card HEARTS 8, new_card HEARTS 9] = 22 \<and>
   playRound float_plain 10 unshuffled [''5'', ''H'', ''H'', [], [], [], []] =
     Inr (15, drop 8 unshuffled @
          [new_card HEARTS 2, new_card HEARTS 3, new_card HEARTS 8, new_card HEARTS 9,
           new_card HEARTS 4, new_card HEARTS 5, new_card HEARTS 6, new_card HEARTS 7], [])"
  by code_simp

subsection \<open>Bets\<close>

lemma rebet_cases:
  "rebet fl maxBet bet ins = Inl ValueError \<or> rebet fl maxBet bet ins = Inl EOFError \<or>
   (\<exists>b rest. rebet fl maxBet bet ins = Inr (b, rest) \<and> 0.5 \<le> b \<and> b \<le> maxBet)"
  by (induction fl maxBet bet ins rule: rebet.induct) (auto split: option.splits)

lemma rebet_parsed:
  "\<forall>s\<in>set ins. fl s \<noteq> None \<Longrightarrow> rebet fl maxBet bet ins \<noteq> Inl ValueError"
  by (induction fl maxBet bet ins rule: rebet.induct) (auto split: option.splits)

text \<open>
  Claim C4, as stated, fails: a line that is not a number makes \<^verbatim>\<open>float\<close> raise
  \<^verbatim>\<open>ValueError\<close> out of \<^verbatim>\<open>getBet\<close>, and so does QUIT typed at the second prompt,
  where it is no longer recognised.
\<close>

theorem getBet_malformed_counterexample:
  "getBet float_plain 10 [''abc''] = Inl ValueError \<and>
   getBet float_plain 10 [''100'', ''QUIT''] = Inl ValueError"
  by code_simp

text \<open>
  Claim C4, amended. For every \<open>maxBet\<close> and every console, \<^verbatim>\<open>getBet\<close> ends in one of
  four ways: the farewell and \<^verbatim>\<open>sys.exit()\<close> with status 0, which happens exactly when
  the first line is QUIT after \<^verbatim>\<open>upper\<close> and \<^verbatim>\<open>strip\<close>; \<^verbatim>\<open>ValueError\<close>, which needs
  a line that is not a number; the end of the input; or a returned amount between 0.50 and
  \<open>maxBet\<close>. An amount out of range is answered by reading the next line: a number there
  takes its place, anything else raises \<^verbatim>\<open>ValueError\<close>; so does a first line that is
  neither QUIT nor a number.
\<close>

theorem getBet_outcomes:
  "(getBet fl maxBet ins = Inl (SysExit farewell 0) \<or>
    getBet fl maxBet ins = Inl ValueError \<or>
    getBet fl maxBet ins = Inl EOFError \<or>
    (\<exists>b rest. getBet fl maxBet ins = Inr (b, rest) \<and> 0.5 \<le> b \<and> b \<le> maxBet)) \<and>
   (getBet fl maxBet ins = Inl (SysExit farewell 0)
      \<longleftrightarrow> (\<exists>s rest. ins = s # rest \<and> strip (upper s) = ''QUIT'')) \<and>
   ((\<forall>s\<in>set ins. fl s \<noteq> None \<and> fl (strip (upper s)) \<noteq> None)
      \<longrightarrow> getBet fl maxBet ins \<noteq> Inl ValueError) \<and>
   ((bet > maxBet \<or> bet < 0.5) \<and> fl line = Some amount
      \<longrightarrow> rebet fl maxBet bet (line # later) = rebet fl maxBet amount later) \<and>
   ((bet > maxBet \<or> bet < 0.5) \<and> fl line = None
      \<longrightarrow> rebet fl maxBet bet (line # later) = Inl ValueError) \<and>
   (strip (upper line) \<noteq> ''QUIT'' \<and> fl (strip (upper line)) = None
      \<longrightarrow> getBet fl maxBet (line # later) = Inl ValueError)"
proof -
  have reprompt: "((bet > maxBet \<or> bet < 0.5) \<and> fl line = Some amount
      \<longrightarrow> rebet fl maxBet bet (line # later) = rebet fl maxBet amount later) \<and>
   ((bet > maxBet \<or> bet < 0.5) \<and> fl line = None
      \<longrightarrow> rebet fl maxBet bet (line # later) = Inl ValueError) \<and>
   (strip (upper line) \<noteq> ''QUIT'' \<and> fl (strip (upper line)) = None
      \<longrightarrow> getBet fl maxBet (line # later) = Inl ValueError)"
    by (auto simp: getBet_def input_def)
  show ?thesis
  proof (cases ins)
  case Nil
  with reprompt show ?thesis by (simp add: getBet_def input_def)
next
  case (Cons s rest)
  show ?thesis
  proof (cases "strip (upper s) = ''QUIT''")
    case True
    with Cons reprompt show ?thesis by (simp add: getBet_def input_def)
  next
    case notquit: False
    show ?thesis
    proof (cases "fl (strip (upper s))")
      case None
      with Cons notquit reprompt show ?thesis by (simp add: getBet_def input_def)
    next
      case (Some b)
      then have g: "getBet fl maxBet ins = rebet fl maxBet b rest"
        using Cons notquit by (simp add: getBet_def input_def)
      have "rebet fl maxBet b rest \<noteq> Inl (SysExit farewell 0)"
        using rebet_cases [of fl maxBet b rest] by auto
      moreover have "(\<forall>s\<in>set ins. fl s \<noteq> None \<and> fl (strip (upper s)) \<noteq> None)
          \<longrightarrow> rebet fl maxBet b rest \<noteq> Inl ValueError"
        using rebet_parsed [of rest fl maxBet b] Cons by auto
      ultimately show ?thesis
        using rebet_cases [of fl maxBet b rest] Cons notquit reprompt unfolding g by auto
    qed
  qed
qed
qed

theorem getBet_outcomes_witness:
  "list_all (\<lambda>s. float_plain s \<noteq> None \<and> float_plain (strip (upper s)) \<noteq> None)
     [''100'', ''0.2'', ''5''] \<and>
   getBet float_plain 10 [''100'', ''0.2'', ''5''] = Inr (5, []) \<and>
   getBet float_plain 10 ['' quit '', ''5''] = Inl (SysExit farewell 0) \<and>
   (10::real) < 100 \<and> float_plain ''0.2'' = Some 0.2 \<and>
   rebet float_plain 10 100 [''0.2'', ''5''] = rebet float_plain 10 0.2 [''5''] \<and>
   float_plain ''QUIT'' = None \<and>
   rebet float_plain 10 100 [''QUIT'', ''5''] = Inl ValueError \<and>
   strip (upper ''abc'') \<noteq> ''QUIT'' \<and> float_plain (strip (upper ''abc'')) = None \<and>
   getBet float_plain 10 [''abc'', ''5''] = Inl ValueError"
proof -
  have h: "(10::real) < 100" by simp
  have i: "float_plain ''QUIT'' = None"
    by code_simp
  have j: "strip (upper ''abc'') \<noteq> ''QUIT''" "float_plain (strip (upper ''abc'')) = None"
    by code_simp+
  note t3 = getBet_outcomes [where fl = float_plain and maxBet = 10 and bet = 100
      and line = "''QUIT''" and later = "[''5'']"]
  note t4 = getBet_outcomes [where fl = float_plain and maxBet = 10 and line = "''abc''"
      and later = "[''5'']"]
  from h i conjunct1 [OF conjunct2 [OF conjunct2 [OF conjunct2 [OF conjunct2 [OF t3]]]]]
  have k: "rebet float_plain 10 100 [''QUIT'', ''5''] = Inl ValueError"
    by blast
  from j conjunct2 [OF conjunct2 [OF conjunct2 [OF conjunct2 [OF conjunct2 [OF t4]]]]]
  have l: "getBet float_plain 10 [''abc'', ''5''] = Inl ValueError"
    by blast
  have d: "float_plain ''0.2'' = Some 0.2"
    by code_simp
  have a: "list_all (\<lambda>s. float_plain s \<noteq> None \<and> float_plain (strip (upper s)) \<noteq> None)
     [''100'', ''0.2'', ''5'']"
    by code_simp
  have b: "getBet float_plain 10 [''100'', ''0.2'', ''5''] = Inr (5, [])"
    by code_simp
  have c: "strip (upper '' quit '') = ''QUIT''"
    by code_simp
  note t1 = getBet_outcomes [of float_plain 10 "[''100'', ''0.2'', ''5'']" 100 "''0.2''" "0.2" "[''5'']"]
  note t2 = getBet_outcomes [of float_plain 10 "['' quit '', ''5'']"]
  from c conjunct1 [OF conjunct2 [OF t2]]
  have e: "getBet float_plain 10 ['' quit '', ''5''] = Inl (SysExit farewell 0)"
    by blast
  from a [unfolded list_all_iff] conjunct1 [OF conjunct2 [OF conjunct2 [OF t1]]]
  have f: "getBet float_plain 10 [''100'', ''0.2'', ''5''] \<noteq> Inl ValueError"
    by blast
  from d h conjunct1 [OF conjunct2 [OF conjunct2 [OF conjunct2 [OF t1]]]]
  have g: "rebet float_plain 10 100 [''0.2'', ''5''] = rebet float_plain 10 0.2 [''5'']"
    by blast
  show ?thesis
    by (intro conjI) (fact a b d e g h i j k l)+
qed

subsection \<open>Double down\<close>

text \<open>
  The double down where \<^verbatim>\<open>getBet\<close> returns an additional bet, which needs 0.50 or more
  left beyond the bet: the amount lies between 0.50 and \<^verbatim>\<open>min(bet, userMoney - bet)\<close>,
  the bet grows by exactly that amount, exactly one card goes from the front of the deck to
  the player's hand, and the player's loop ends there whatever the new total, with nothing
  more read from the console.
\<close>

lemma double_down_once:
  assumes "handValue userHand < 21"
    and "getMove userHand (userMoney - bet) ins = Inr (''D'', ins1)"
    and "getBet fl (min bet (userMoney - bet)) ins1 = Inr (additionalBet, ins2)"
    and "deal deck = Inr (newCard, deck1)"
  shows "playerTurn fl userMoney userHand bet deck ins
           = Inr (userHand @ [newCard], bet + additionalBet, deck1, ins2) \<and>
         0.5 \<le> additionalBet \<and> additionalBet \<le> min bet (userMoney - bet)"
  using assms getBet_range [OF assms(3)] by (simp add: playerTurn_double)

lemma double_down_once_example:
  "handValue [new_card HEARTS 5, new_card SPADES 6] < 21 \<and>
   getMove [new_card HEARTS 5, new_card SPADES 6] (10 - 2) [''d'', ''2'', ''h''] = Inr (''D'', [''2'', ''h'']) \<and>
   getBet float_plain (min 2 (10 - 2)) [''2'', ''h''] = Inr (2, [''h'']) \<and>
   deal [new_card CLUBS 13, new_card CLUBS 2] = Inr (new_card CLUBS 13, [new_card CLUBS 2]) \<and>
   playerTurn float_plain 10 [new_card HEARTS 5, new_card SPADES 6] 2
       [new_card CLUBS 13, new_card CLUBS 2] [''d'', ''2'', ''h'']
     = Inr ([new_card HEARTS 5, new_card SPADES 6, new_card CLUBS 13], 4, [new_card CLUBS 2], [''h''])"
proof -
  have a: "handValue [new_card HEARTS 5, new_card SPADES 6] < 21"
    by code_simp
  have b: "getMove [new_card HEARTS 5, new_card SPADES 6] (10 - 2) [''d'', ''2'', ''h'']
      = Inr (''D'', [''2'', ''h''])"
    by code_simp
  have c: "getBet float_plain (min 2 (10 - 2)) [''2'', ''h''] = Inr (2, [''h''])"
    by code_simp
  have d: "deal [new_card CLUBS 13, new_card CLUBS 2] = Inr (new_card CLUBS 13, [new_card CLUBS 2])"
    by code_simp
  from double_down_once [OF a b c d] a b c d show ?thesis by simp
qed

text \<open>
  The double down where less than 0.50 is left beyond the bet: \<^verbatim>\<open>getBet\<close> cannot return,
  so the player's loop ends with the program, by QUIT at the first prompt of the additional
  bet, by a line that is not a number, or by the end of the input.
\<close>

lemma rebet_fails:
  "rebet fl maxBet bet ins = Inl e \<Longrightarrow> e = ValueError \<or> e = EOFError"
  using rebet_cases [of fl maxBet bet ins] by auto

lemma getBet_fails:
  "getBet fl maxBet ins = Inl e \<Longrightarrow> e = SysExit farewell 0 \<or> e = ValueError \<or> e = EOFError"
  by (cases ins)
     (auto simp: getBet_def input_def Let_def split: if_splits option.splits dest: rebet_fails)

lemma getBet_no_room:
  assumes "maxBet < 0.5"
  shows "getBet fl maxBet ins = Inl (SysExit farewell 0) \<or> getBet fl maxBet ins = Inl ValueError \<or>
         getBet fl maxBet ins = Inl EOFError"
proof (cases "getBet fl maxBet ins")
  case (Inl e)
  with getBet_fails [of fl maxBet ins e] show ?thesis by auto
next
  case (Inr r)
  obtain b rest where "r = (b, rest)" by (cases r)
  with Inr getBet_range [of fl maxBet ins b rest] assms show ?thesis by simp
qed

lemma double_down_stuck:
  assumes "handValue userHand < 21"
    and "getMove userHand (userMoney - bet) ins = Inr (''D'', ins1)"
    and "userMoney - bet < 0.5"
  shows "playerTurn fl userMoney userHand bet deck ins = Inl (SysExit farewell 0) \<or>
         playerTurn fl userMoney userHand bet deck ins = Inl ValueError \<or>
         playerTurn fl userMoney userHand bet deck ins = Inl EOFError"
proof -
  have "min bet (userMoney - bet) \<le> userMoney - bet" by (rule min.cobounded2)
  with assms(3) have "min bet (userMoney - bet) < 0.5" by linarith
  from getBet_no_room [OF this, of fl ins1] assms(1,2) show ?thesis
    by (auto simp: playerTurn_double)
qed

text \<open>
  Claim C5. The claim asks that a double down commits an additional bet, draws exactly one
  card and ends the player's turn. \<^verbatim>\<open>getMove\<close> accepts D as soon as any money is left
  beyond the bet, but \<^verbatim>\<open>getBet\<close> takes no amount below 0.50. With a bankroll of 10 and a
  bet of 9.8 the hand of two cards is worth 11, D is accepted with 0.2 left, and for every
  console and every deck the player's loop returns no hand: it ends in \<^verbatim>\<open>sys.exit()\<close>,
  \<^verbatim>\<open>ValueError\<close> or the end of the input, with no additional bet and no card drawn.
  The amounts 0.2, 0.5, 5 and 0.1 are all refused, and the case is reached in play from a
  bet of 9.8 on the deck in constructor order.
\<close>

theorem double_down_trap:
  "handValue [new_card HEARTS 5, new_card SPADES 6] = 11 \<and>
   getMove [new_card HEARTS 5, new_card SPADES 6] (10 - 9.8) (''D'' # ins) = Inr (''D'', ins) \<and>
   (playerTurn fl 10 [new_card HEARTS 5, new_card SPADES 6] 9.8 deck (''D'' # ins)
      = Inl (SysExit farewell 0) \<or>
    playerTurn fl 10 [new_card HEARTS 5, new_card SPADES 6] 9.8 deck (''D'' # ins)
      = Inl ValueError \<or>
    playerTurn fl 10 [new_card HEARTS 5, new_card SPADES 6] 9.8 deck (''D'' # ins)
      = Inl EOFError) \<and>
   playerTurn float_plain 10 [new_card HEARTS 5, new_card SPADES 6] 9.8 [new_card CLUBS 13]
       [''D'', ''0.2'', ''0.5'', ''5'', ''0.1'']
     = Inl EOFError \<and>
   playHands float_plain 10 unshuffled [''9.8'', ''D'', ''0.2'', ''0.5'', ''5'', ''0.1'']
     = Inl EOFError"
proof -
  have a: "handValue [new_card HEARTS 5, new_card SPADES 6] = 11"
    by code_simp
  have b: "getMove [new_card HEARTS 5, new_card SPADES 6] (10 - 9.8) (''D'' # ins) = Inr (''D'', ins)"
  proof -
    have "strip (upper ''D'') = ''D''" by code_simp
    then show ?thesis by (simp add: double_offered)
  qed
  have c: "playerTurn fl 10 [new_card HEARTS 5, new_card SPADES 6] 9.8 deck (''D'' # ins)
      = Inl (SysExit farewell 0) \<or>
    playerTurn fl 10 [new_card HEARTS 5, new_card SPADES 6] 9.8 deck (''D'' # ins)
      = Inl ValueError \<or>
    playerTurn fl 10 [new_card HEARTS 5, new_card SPADES 6] 9.8 deck (''D'' # ins)
      = Inl EOFError"
  proof -
    from a have lt: "handValue [new_card HEARTS 5, new_card SPADES 6] < 21" by simp
    have small: "(10::real) - 9.8 < 0.5" by simp
    from lt b small show ?thesis by (rule double_down_stuck)
  qed
  have d: "playerTurn float_plain 10 [new_card HEARTS 5, new_card SPADES 6] 9.8 [new_card CLUBS 13]
       [''D'', ''0.2'', ''0.5'', ''5'', ''0.1'']
     = Inl EOFError"
    by code_simp
  have e: "playHands float_plain 10 unshuffled [''9.8'', ''D'', ''0.2'', ''0.5'', ''5'', ''0.1'']
     = Inl EOFError"
    by code_simp
  show ?thesis by (intro conjI) (fact a b c d e)+
qed

text \<open>
  Claim C6, as stated, fails: \<^verbatim>\<open>getMove\<close> accepts D as soon as some money is left beyond
  the bet. With a bankroll of 10 and a bet of 8 it is called with 2 and accepts D, although
  2 cannot match an additional bet of 8; the player's loop then takes an additional bet of
  2 and one card.
\<close>

theorem getMove_double_counterexample:
  "getMove [new_card HEARTS 5, new_card SPADES 6] (10 - 8) [''D''] = Inr (''D'', []) \<and>
   \<not> (8 \<le> (10::real) - 8) \<and>
   playerTurn float_plain 10 [new_card HEARTS 5, new_card SPADES 6] 8 [new_card CLUBS 13]
       [''D'', ''2'']
     = Inr ([new_card HEARTS 5, new_card SPADES 6, new_card CLUBS 13], 10, [], [])"
  by code_simp

text \<open>
  Claim C6, amended. \<^verbatim>\<open>getMove\<close> offers the double down, and accepts D, only when the
  hand has exactly two cards and the money beyond the current bet is positive; it returns
  H, S or D only; a D that is not eligible is answered by reading the next line; and the
  only way \<^verbatim>\<open>getMove\<close> fails is the end of the input.
\<close>

theorem getMove_double:
  "(''(D)ouble down'' \<in> moves cards money \<longleftrightarrow> length cards = 2 \<and> 0 < money) \<and>
   (getMove cards money ins = Inr (''D'', rest) \<longrightarrow> length cards = 2 \<and> 0 < money) \<and>
   (getMove cards money ins = Inr (m, rest) \<longrightarrow> m = ''H'' \<or> m = ''S'' \<or> m = ''D'') \<and>
   (strip (upper s) = ''D'' \<and> \<not> (length cards = 2 \<and> 0 < money)
      \<longrightarrow> getMove cards money (s # ins) = getMove cards money ins) \<and>
   (getMove cards money ins = Inl e \<longrightarrow> e = EOFError)"
proof -
  have "getMove cards money ins = Inl e \<longrightarrow> e = EOFError"
    by (induction cards money ins rule: getMove.induct) (auto simp: Let_def)
  moreover have "strip (upper s) = ''D'' \<and> \<not> (length cards = 2 \<and> 0 < money)
      \<longrightarrow> getMove cards money (s # ins) = getMove cards money ins"
    by (simp add: double_offered)
  ultimately show ?thesis
    using double_offered [of cards money] getMove_double_ok [of cards money ins rest]
      getMove_result [of cards money ins m rest]
    by blast
qed

theorem getMove_double_witness:
  "getMove [new_card HEARTS 5, new_card SPADES 6] 2 [''x'', ''d''] = Inr (''D'', []) \<and>
   length [new_card HEARTS 5, new_card SPADES 6] = 2 \<and> (0::real) < 2 \<and>
   strip (upper ''d'') = ''D'' \<and>
   \<not> (length [new_card HEARTS 5, new_card SPADES 6, new_card CLUBS 2] = 2 \<and> (0::real) < 2) \<and>
   getMove [new_card HEARTS 5, new_card SPADES 6, new_card CLUBS 2] 2 [''d'', ''s'']
     = getMove [new_card HEARTS 5, new_card SPADES 6, new_card CLUBS 2] 2 [''s''] \<and>
   getMove [new_card HEARTS 5, new_card SPADES 6, new_card CLUBS 2] 2 [''d'', ''s''] = Inr (''S'', []) \<and>
   getMove [new_card HEARTS 5, new_card SPADES 6] 0 [''d''] = Inl EOFError"
proof -
  have a: "getMove [new_card HEARTS 5, new_card SPADES 6] 2 [''x'', ''d''] = Inr (''D'', [])"
    by code_simp
  have b: "strip (upper ''d'') = ''D''"
    by code_simp
  have c: "getMove [new_card HEARTS 5, new_card SPADES 6, new_card CLUBS 2] 2 [''s''] = Inr (''S'', [])"
    by code_simp
  have d: "getMove [new_card HEARTS 5, new_card SPADES 6] 0 [''d''] = Inl EOFError"
    by code_simp
  from a b c d
    getMove_double [of "[new_card HEARTS 5, new_card SPADES 6]" 2 "[''x'', ''d'']" "[]" "''D''" "''d''" EOFError]
    getMove_double [of "[new_card HEARTS 5, new_card SPADES 6, new_card CLUBS 2]" 2 "[''s'']" "[]" "''S''" "''d''" EOFError]
    getMove_double [of "[new_card HEARTS 5, new_card SPADES 6]" 0 "[''d'']" "[]" "''D''" "''d''" EOFError]
  show ?thesis by simp
qed

subsection \<open>The dealer\<close>

lemma handValue_flip: "handValue (flip c # cards) = handValue (c # cards)"
  by (simp add: handValue_eq hard_def aces_of_def flip_def)

lemma playHands_Inr:
  assumes "playHands fl userMoney deck ins = Inr (bet1, dealerHand2, userHand1, deck3, ins4)"
  obtains bet ins1 dealerHand userHand deck1 deck2 ins2 s ins3 dealerHand1 where
    "getBet fl userMoney ins = Inr (bet, ins1)"
    "dealHands deck = Inr (dealerHand, userHand, deck1)"
    "playerTurn fl userMoney userHand bet deck1 ins1 = Inr (userHand1, bet1, deck2, ins2)"
    "input ins2 = Inr (s, ins3)"
    "dealerTurn dealerHand deck2 ins3 = Inr (dealerHand1, deck3, ins4)"
    "displayCards dealerHand1 userHand1 True = Inr dealerHand2"
  using assms unfolding playHands_def
  by (auto split: sum.splits prod.splits)

lemma displayCards_True:
  "displayCards firstSet secondSet True = Inr firstSet' \<longleftrightarrow>
     (\<exists>c rest. firstSet = c # rest \<and> firstSet' = flip c # rest)"
  by (auto simp: displayCards_def split: list.splits)

lemma dealHands_Inr:
  "dealHands deck = Inr (dealerHand, userHand, deck1) \<longleftrightarrow>
     (\<exists>c1 c2 c3 c4. deck = c1 # c2 # c3 # c4 # deck1 \<and> dealerHand = [flip c1, c2] \<and>
        userHand = [c3, c4])"
  by (auto simp: dealHands_def deal_def split: list.splits)

text \<open>
  Claim C7. When the dealer's turn ends, the dealer has drawn some number \<open>n\<close> of cards
  from the front of the deck, the total was below 17 before each draw, and the final total
  is at least 17: the dealer draws exactly while below 17. The turn does end when all cards
  are worth at least 1 and the deck and the console hold 17 entries or more. The dealer's
  total at the final display of a round, which the settlement uses, is at least 17.
\<close>

theorem dealer_draws_below_17:
  "(dealerTurn dealerHand deck ins = Inr (dealerHand', deck', ins') \<longrightarrow>
      (\<exists>n. n \<le> length deck \<and> dealerHand' = dealerHand @ take n deck \<and> deck' = drop n deck \<and>
           (\<forall>j<n. handValue (dealerHand @ take j deck) < 17) \<and> 17 \<le> handValue dealerHand')) \<and>
   ((\<forall>c\<in>set (dealerHand @ deck). 1 \<le> cvalue c) \<and> 17 \<le> length deck \<and> 17 \<le> length ins
      \<longrightarrow> (\<exists>r. dealerTurn dealerHand deck ins = Inr r)) \<and>
   (playHands fl userMoney deck0 ins0 = Inr (bet, finalDealerHand, finalUserHand, deck1, ins1)
      \<longrightarrow> 17 \<le> handValue finalDealerHand)"
proof (intro conjI impI)
  assume "dealerTurn dealerHand deck ins = Inr (dealerHand', deck', ins')"
  from dealerTurn_result [OF this]
  show "\<exists>n. n \<le> length deck \<and> dealerHand' = dealerHand @ take n deck \<and> deck' = drop n deck \<and>
           (\<forall>j<n. handValue (dealerHand @ take j deck) < 17) \<and> 17 \<le> handValue dealerHand'"
    by blast
next
  assume a: "(\<forall>c\<in>set (dealerHand @ deck). 1 \<le> cvalue c) \<and> 17 \<le> length deck \<and> 17 \<le> length ins"
  then have "\<forall>c\<in>set (dealerHand @ take 17 deck). 1 \<le> cvalue c"
    by (auto dest: in_set_takeD)
  from handValue_ge_length [OF this] a have "17 \<le> handValue (dealerHand @ take 17 deck)"
    by simp
  with a have "\<exists>r. dealerLoop dealerHand deck ins = Inr r"
    by (intro dealerLoop_returns [of 17]) simp_all
  then show "\<exists>r. dealerTurn dealerHand deck ins = Inr r"
    by (simp add: dealerTurn_def)
next
  assume "playHands fl userMoney deck0 ins0 = Inr (bet, finalDealerHand, finalUserHand, deck1, ins1)"
  then obtain dealerHand0 deck2 ins3 dealerHand1 where
    dt: "dealerTurn dealerHand0 deck2 ins3 = Inr (dealerHand1, deck1, ins1)"
    and dc: "displayCards dealerHand1 finalUserHand True = Inr finalDealerHand"
    by (rule playHands_Inr)
  from dealerTurn_result [OF dt] have "17 \<le> handValue dealerHand1" by blast
  moreover from dc obtain c rest where "dealerHand1 = c # rest" "finalDealerHand = flip c # rest"
    by (auto simp: displayCards_True)
  ultimately show "17 \<le> handValue finalDealerHand" by (simp add: handValue_flip)
qed

theorem dealer_draws_below_17_witness:
  "dealerTurn [flip (new_card HEARTS 2), new_card HEARTS 3] (drop 6 unshuffled) (replicate 17 [])
     = Inr ([flip (new_card HEARTS 2), new_card HEARTS 3, new_card HEARTS 8, new_card HEARTS 9],
            drop 8 unshuffled, replicate 15 []) \<and>
   list_all (\<lambda>c. 1 \<le> cvalue c)
     ([flip (new_card HEARTS 2), new_card HEARTS 3] @ drop 6 unshuffled) \<and>
   17 \<le> length (drop 6 unshuffled) \<and> 17 \<le> length (replicate 17 ([] :: string)) \<and>
   handValue [flip (new_card HEARTS 2), new_card HEARTS 3, new_card HEARTS 8] = 13 \<and>
   17 \<le> handValue [flip (new_card HEARTS 2), new_card HEARTS 3, new_card HEARTS 8, new_card HEARTS 9] \<and>
   playHands float_plain 10 unshuffled [''5'', ''S'', [], [], [], []] =
     Inr (5, [new_card HEARTS 2, new_card HEARTS 3, new_card HEARTS 6, new_card HEARTS 7],
          [new_card HEARTS 4, new_card HEARTS 5], drop 6 unshuffled, [[]]) \<and>
   17 \<le> handValue [new_card HEARTS 2, new_card HEARTS 3, new_card HEARTS 6, new_card HEARTS 7]"
proof -
  have a: "dealerTurn [flip (new_card HEARTS 2), new_card HEARTS 3] (drop 6 unshuffled) (replicate 17 [])
     = Inr ([flip (new_card HEARTS 2), new_card HEARTS 3, new_card HEARTS 8, new_card HEARTS 9],
            drop 8 unshuffled, replicate 15 [])"
    by code_simp
  have b0: "list_all (\<lambda>c. 1 \<le> cvalue c)
     ([flip (new_card HEARTS 2), new_card HEARTS 3] @ drop 6 unshuffled)"
    by code_simp
  then have b: "\<forall>c\<in>set ([flip (new_card HEARTS 2), new_card HEARTS 3] @ drop 6 unshuffled). 1 \<le> cvalue c"
    unfolding list_all_iff .
  have c: "17 \<le> length (drop 6 unshuffled)" "17 \<le> length (replicate 17 ([] :: string))"
    by code_simp+
  have d: "handValue [flip (new_card HEARTS 2), new_card HEARTS 3, new_card HEARTS 8] = 13"
    by code_simp
  have e: "playHands float_plain 10 unshuffled [''5'', ''S'', [], [], [], []] =
     Inr (5, [new_card HEARTS 2, new_card HEARTS 3, new_card HEARTS 6, new_card HEARTS 7],
          [new_card HEARTS 4, new_card HEARTS 5], drop 6 unshuffled, [[]])"
    by code_simp
  from dealer_draws_below_17 [of "[flip (new_card HEARTS 2), new_card HEARTS 3]"
      "drop 6 unshuffled" "replicate 17 []"
      "[flip (new_card HEARTS 2), new_card HEARTS 3, new_card HEARTS 8, new_card HEARTS 9]"
      "drop 8 unshuffled" "replicate 15 []" float_plain 10 unshuffled
      "[''5'', ''S'', [], [], [], []]" 5
      "[new_card HEARTS 2, new_card HEARTS 3, new_card HEARTS 6, new_card HEARTS 7]"
      "[new_card HEARTS 4, new_card HEARTS 5]" "drop 6 unshuffled" "[[]]"] a b b0 c d e
  show ?thesis by blast
qed

subsection \<open>Cards and bets through a round\<close>

lemma flip_flip: "flip (flip c) = c"
  by (simp add: flip_def)

lemma face_flip: "face (flip c) = face c"
  by (simp add: face_def flip_def)

lemma playerTurn_cards:
  assumes "playerTurn fl userMoney userHand bet deck ins = Inr (userHand', bet', deck', ins')"
  shows "userHand' @ deck' = userHand @ deck"
  using assms
proof (rule playerTurn_invariant [where P = "\<lambda>u b k. u @ k = userHand @ deck"])
  show "userHand @ deck = userHand @ deck" ..
qed (simp_all add: deal_Inr)

lemma playerTurn_bet:
  assumes "playerTurn fl userMoney userHand bet deck ins = Inr (userHand', bet', deck', ins')"
    and "0.5 \<le> bet" and "bet \<le> userMoney"
  shows "0.5 \<le> bet' \<and> bet \<le> bet' \<and> bet' \<le> userMoney"
  using assms(1)
proof (rule playerTurn_invariant [where P = "\<lambda>u b k. 0.5 \<le> b \<and> bet \<le> b \<and> b \<le> userMoney"])
  from assms(2,3) show "0.5 \<le> bet \<and> bet \<le> bet \<and> bet \<le> userMoney" by simp
qed auto

lemma dealerTurn_cards:
  assumes "dealerTurn dealerHand deck ins = Inr (dealerHand', deck', ins')"
  shows "\<exists>n. dealerHand' = dealerHand @ take n deck \<and> deck' = drop n deck"
  using dealerTurn_result [OF assms] by blast

lemma playHands_cards:
  assumes "playHands fl userMoney deck ins = Inr (bet, dealerHand, userHand, deck', ins')"
  shows "mset (dealerHand @ userHand @ deck') = mset deck"
proof -
  from assms obtain bet0 ins1 d0 u0 k1 k2 ins2 ins3 d1 where
    dh: "dealHands deck = Inr (d0, u0, k1)"
    and pt: "playerTurn fl userMoney u0 bet0 k1 ins1 = Inr (userHand, bet, k2, ins2)"
    and dt: "dealerTurn d0 k2 ins3 = Inr (d1, deck', ins')"
    and dc: "displayCards d1 userHand True = Inr dealerHand"
    by (rule playHands_Inr)
  from dh obtain c1 c2 c3 c4 where
    deck: "deck = c1 # c2 # c3 # c4 # k1" and d0: "d0 = [flip c1, c2]" and u0: "u0 = [c3, c4]"
    by (auto simp: dealHands_Inr)
  from playerTurn_cards [OF pt] have p: "userHand @ k2 = u0 @ k1" .
  from dealerTurn_cards [OF dt] obtain n where
    d1: "d1 = d0 @ take n k2" and k3: "deck' = drop n k2" by blast
  from dc d1 d0 have dealerHand: "dealerHand = c1 # c2 # take n k2"
    by (auto simp: displayCards_True flip_flip)
  have "mset (dealerHand @ userHand @ deck') = mset [c1, c2] + mset userHand + mset (take n k2 @ drop n k2)"
    unfolding dealerHand k3 by (simp del: append_take_drop_id)
  also have "\<dots> = mset [c1, c2] + mset (userHand @ k2)" by simp
  also have "\<dots> = mset deck" unfolding p u0 deck by simp
  finally show ?thesis .
qed

lemma playRound_Inr:
  assumes "playRound fl userMoney deck ins = Inr (userMoney', deck', ins')"
  obtains bet dealerHand userHand deck1 ins1 s where
    "playHands fl userMoney deck ins = Inr (bet, dealerHand, userHand, deck1, ins1)"
    "userMoney' = settle userMoney bet (handValue userHand) (handValue dealerHand)"
    "deck' = deck1 @ dealerHand @ userHand"
    "input ins1 = Inr (s, ins')"
  using assms unfolding playRound_def Let_def discard_def
  by (auto split: sum.splits prod.splits)

lemma playRound_cards:
  assumes "playRound fl userMoney deck ins = Inr (userMoney', deck', ins')"
  shows "mset deck' = mset deck"
proof -
  from assms obtain bet dealerHand userHand deck1 ins1 where
    ph: "playHands fl userMoney deck ins = Inr (bet, dealerHand, userHand, deck1, ins1)"
    and d: "deck' = deck1 @ dealerHand @ userHand"
    by (rule playRound_Inr)
  from playHands_cards [OF ph] d show ?thesis by (simp add: ac_simps)
qed

lemma loopBody_cards:
  assumes "loopBody fl (userMoney, deck, roundcount, ins) = Inr (userMoney', deck', roundcount', ins')"
  shows "mset deck' = mset deck"
  using assms unfolding loopBody_def
  by (auto split: sum.splits prod.splits dest: playRound_cards)

lemma rounds_cards:
  "rounds fl n (userMoney, deck, roundcount, ins) = Inr (userMoney', deck', roundcount', ins')
     \<Longrightarrow> mset deck' = mset deck"
proof (induction n arbitrary: userMoney deck roundcount ins)
  case 0
  then show ?case by simp
next
  case (Suc n)
  from Suc.prems obtain m1 d1 r1 i1 where
    lb: "loopBody fl (userMoney, deck, roundcount, ins) = Inr (m1, d1, r1, i1)"
    and rs: "rounds fl n (m1, d1, r1, i1) = Inr (userMoney', deck', roundcount', ins')"
    by (auto split: sum.splits)
  from Suc.IH [OF rs] loopBody_cards [OF lb] show ?case by simp
qed

text \<open>
  Claim C10. Whenever a round reaches its final display, the bet, with any double down
  included, lies between 0.50 and the bankroll the round started with (so that bankroll
  was positive), and the settlement leaves a bankroll that is not negative; the same holds
  for the bankroll a completed round returns.
\<close>

theorem bet_within_bankroll:
  "(playHands fl userMoney deck ins = Inr (bet, dealerHand, userHand, deck1, ins1) \<longrightarrow>
      0.5 \<le> bet \<and> bet \<le> userMoney \<and>
      0 \<le> settle userMoney bet (handValue userHand) (handValue dealerHand)) \<and>
   (playRound fl userMoney deck ins = Inr (userMoney', deck', ins') \<longrightarrow> 0 \<le> userMoney')"
proof -
  have a: "0.5 \<le> b \<and> b \<le> userMoney \<and> 0 \<le> settle userMoney b (handValue u) (handValue d)"
    if "playHands fl userMoney deck ins = Inr (b, d, u, k, i)" for b d u k i
  proof -
    from that obtain bet0 ins1 u0 k1 k2 ins2 where
      gb: "getBet fl userMoney ins = Inr (bet0, ins1)"
      and pt: "playerTurn fl userMoney u0 bet0 k1 ins1 = Inr (u, b, k2, ins2)"
      by (rule playHands_Inr)
    from getBet_range [OF gb] have "0.5 \<le> bet0" "bet0 \<le> userMoney" by simp_all
    from playerTurn_bet [OF pt this] have "0.5 \<le> b" "b \<le> userMoney" by simp_all
    then show ?thesis by (simp add: settle_def)
  qed
  have "0 \<le> userMoney'" if "playRound fl userMoney deck ins = Inr (userMoney', deck', ins')"
  proof -
    from that obtain b d u k i where
      "playHands fl userMoney deck ins = Inr (b, d, u, k, i)"
      "userMoney' = settle userMoney b (handValue u) (handValue d)"
      by (rule playRound_Inr)
    with a show ?thesis by blast
  qed
  with a show ?thesis by blast
qed


theorem bet_within_bankroll_witness:
  "playHands float_plain 10 unshuffled [''2'', ''D'', ''2'', [], [], []] =
     Inr (4, [new_card HEARTS 2, new_card HEARTS 3, new_card HEARTS 7, new_card HEARTS 8],
          [new_card HEARTS 4, new_card HEARTS 5, new_card HEARTS 6], drop 7 unshuffled, []) \<and>
   (4::real) \<le> 10 \<and>
   settle 10 4 (handValue [new_card HEARTS 4, new_card HEARTS 5, new_card HEARTS 6])
     (handValue [new_card HEARTS 2, new_card HEARTS 3, new_card HEARTS 7, new_card HEARTS 8]) = 6 \<and>
   playRound float_plain 10 unshuffled [''2'', ''D'', ''2'', [], [], [], []] =
     Inr (6, drop 7 unshuffled @
          [new_card HEARTS 2, new_card HEARTS 3, new_card HEARTS 7, new_card HEARTS 8,
           new_card HEARTS 4, new_card HEARTS 5, new_card HEARTS 6], []) \<and>
   (0::real) \<le> 6"
proof -
  have a: "playHands float_plain 10 unshuffled [''2'', ''D'', ''2'', [], [], []] =
     Inr (4, [new_card HEARTS 2, new_card HEARTS 3, new_card HEARTS 7, new_card HEARTS 8],
          [new_card HEARTS 4, new_card HEARTS 5, new_card HEARTS 6], drop 7 unshuffled, [])"
    by code_simp
  have b: "playRound float_plain 10 unshuffled [''2'', ''D'', ''2'', [], [], [], []] =
     Inr (6, drop 7 unshuffled @
          [new_card HEARTS 2, new_card HEARTS 3, new_card HEARTS 7, new_card HEARTS 8,
           new_card HEARTS 4, new_card HEARTS 5, new_card HEARTS 6], [])"
    by code_simp
  have c: "settle 10 4 (handValue [new_card HEARTS 4, new_card HEARTS 5, new_card HEARTS 6])
     (handValue [new_card HEARTS 2, new_card HEARTS 3, new_card HEARTS 7, new_card HEARTS 8]) = 6"
    by code_simp
  from a conjunct1 [OF bet_within_bankroll
      [where fl = float_plain and userMoney = 10 and deck = unshuffled
         and ins = "[''2'', ''D'', ''2'', [], [], []]"]]
  have d: "(4::real) \<le> 10" by blast
  from b conjunct2 [OF bet_within_bankroll
      [where fl = float_plain and userMoney = 10 and deck = unshuffled
         and ins = "[''2'', ''D'', ''2'', [], [], [], []]"]]
  have e: "(0::real) \<le> 6" by blast
  from a b c d e show ?thesis by simp
qed

subsection \<open>The card population\<close>

lemma length_unshuffled: "length unshuffled = 52"
  by (simp add: unshuffled_def)

lemma full_table_count:
  assumes "full_table deck dealerHand userHand"
  shows "length deck + length dealerHand + length userHand = 52"
proof -
  from assms have "size (mset (map face (deck @ dealerHand @ userHand))) = size (mset (map face unshuffled))"
    by (simp only: full_table_def)
  then show ?thesis by (simp add: length_unshuffled)
qed

lemma full_table_mset:
  "mset (k @ d @ u) = mset (k' @ d' @ u') \<Longrightarrow> full_table k d u \<Longrightarrow> full_table k' d' u'"
  unfolding full_table_def by (metis mset_map)

lemma DeckofCards_full: "DeckofCards deck \<Longrightarrow> full_table deck [] []"
  by (simp add: DeckofCards_def full_table_def)

text \<open>
  Claim C3. The 52 faces are on the table at every point: a new deck holds them; the
  opening deal, each single deal to either hand, the player's loop, the dealer's turn and
  the final display keep them in the deck and the two hands together; the player's loop and
  the dealer's turn only move cards from the front of the deck to the end of a hand, in
  order; the discard at the end of a round returns every card to the deck, so the deck
  after any number of rounds holds the same cards as the new deck, 52 of them; and a full
  table always counts 52 cards in deck and hands.
\<close>

theorem card_population:
  "(DeckofCards deck \<longrightarrow> full_table deck [] []) \<and>
   (full_table deck [] [] \<and> dealHands deck = Inr (d0, u0, k0) \<longrightarrow> full_table k0 d0 u0) \<and>
   (full_table k d u \<and> deal k = Inr (c, k1)
      \<longrightarrow> k = c # k1 \<and> full_table k1 d (u @ [c]) \<and> full_table k1 (d @ [c]) u) \<and>
   (full_table k d u \<and> playerTurn fl M u b k ins = Inr (u', b', k', ins')
      \<longrightarrow> full_table k' d u' \<and> u' @ k' = u @ k) \<and>
   (full_table k d u \<and> dealerTurn d k ins = Inr (d', k'', ins'')
      \<longrightarrow> full_table k'' d' u \<and> d' @ k'' = d @ k) \<and>
   (full_table k d u \<and> displayCards d u True = Inr d2 \<longrightarrow> full_table k d2 u) \<and>
   (full_table deck [] [] \<and> playHands fl M deck ins0 = Inr (bet, d3, u3, k3, ins3)
      \<longrightarrow> full_table k3 d3 u3) \<and>
   (full_table deck [] [] \<and> playRound fl M deck ins0 = Inr (M1, deck1, ins1)
      \<longrightarrow> full_table deck1 [] [] \<and> mset deck1 = mset deck) \<and>
   (DeckofCards deck \<and> rounds fl n (M, deck, rc, ins0) = Inr (M2, deck2, rc2, ins2)
      \<longrightarrow> full_table deck2 [] [] \<and> length deck2 = 52) \<and>
   (full_table k d u \<longrightarrow> length k + length d + length u = 52)"
proof (intro conjI impI; (elim conjE)?)
  show "full_table deck [] []" if "DeckofCards deck"
    using that by (rule DeckofCards_full)
  show "full_table k0 d0 u0" if "full_table deck [] []" "dealHands deck = Inr (d0, u0, k0)"
    using that by (auto simp: dealHands_Inr full_table_def face_flip add_mset_commute)
  show "k = c # k1" if "deal k = Inr (c, k1)"
    using that by (simp add: deal_Inr)
  show "full_table k1 d (u @ [c])" if "full_table k d u" "deal k = Inr (c, k1)"
    using that by (auto simp: deal_Inr full_table_def)
  show "full_table k1 (d @ [c]) u" if "full_table k d u" "deal k = Inr (c, k1)"
    using that by (auto simp: deal_Inr full_table_def)
  show "u' @ k' = u @ k" if "playerTurn fl M u b k ins = Inr (u', b', k', ins')"
    using that by (rule playerTurn_cards)
  show "full_table k' d u'" if "full_table k d u" "playerTurn fl M u b k ins = Inr (u', b', k', ins')"
  proof -
    from playerTurn_cards [OF that(2)] have "mset (u' @ k') = mset (u @ k)" by simp
    then have "mset (k @ d @ u) = mset (k' @ d @ u')" by (simp add: ac_simps)
    from this that(1) show ?thesis by (rule full_table_mset)
  qed
  show "d' @ k'' = d @ k" if "dealerTurn d k ins = Inr (d', k'', ins'')"
    using dealerTurn_cards [OF that] by auto
  show "full_table k'' d' u" if "full_table k d u" "dealerTurn d k ins = Inr (d', k'', ins'')"
  proof -
    from dealerTurn_cards [OF that(2)] have "d' @ k'' = d @ k" by auto
    then have "mset (d' @ k'') = mset (d @ k)" by simp
    then have "mset (k @ d @ u) = mset (k'' @ d' @ u)" by (simp add: ac_simps)
    from this that(1) show ?thesis by (rule full_table_mset)
  qed
  show "full_table k d2 u" if "full_table k d u" "displayCards d u True = Inr d2"
    using that by (auto simp: displayCards_True full_table_def face_flip)
  show "full_table k3 d3 u3"
    if "full_table deck [] []" "playHands fl M deck ins0 = Inr (bet, d3, u3, k3, ins3)"
  proof -
    from playHands_cards [OF that(2)] have "mset (deck @ [] @ []) = mset (k3 @ d3 @ u3)"
      by (simp add: ac_simps)
    from this that(1) show ?thesis by (rule full_table_mset)
  qed
  show "mset deck1 = mset deck" if "playRound fl M deck ins0 = Inr (M1, deck1, ins1)"
    using that by (rule playRound_cards)
  show "full_table deck1 [] []"
    if "full_table deck [] []" "playRound fl M deck ins0 = Inr (M1, deck1, ins1)"
  proof -
    from playRound_cards [OF that(2)] have "mset (deck @ [] @ []) = mset (deck1 @ [] @ [])"
      by simp
    from this that(1) show ?thesis by (rule full_table_mset)
  qed
  show "full_table deck2 [] []"
    if "DeckofCards deck" "rounds fl n (M, deck, rc, ins0) = Inr (M2, deck2, rc2, ins2)"
  proof -
    from rounds_cards [OF that(2)] have "mset (deck @ [] @ []) = mset (deck2 @ [] @ [])"
      by simp
    from this DeckofCards_full [OF that(1)] show ?thesis by (rule full_table_mset)
  qed
  show "length deck2 = 52"
    if "DeckofCards deck" "rounds fl n (M, deck, rc, ins0) = Inr (M2, deck2, rc2, ins2)"
  proof -
    from rounds_cards [OF that(2)] have "size (mset deck2) = size (mset deck)" by simp
    moreover from that(1) have "size (mset deck) = size (mset unshuffled)"
      by (simp only: DeckofCards_def)
    ultimately show ?thesis by (simp add: length_unshuffled)
  qed
  show "length k + length d + length u = 52" if "full_table k d u"
    using that by (rule full_table_count)
qed

theorem card_population_witness:
  "DeckofCards unshuffled \<and>
   full_table unshuffled [] [] \<and>
   dealHands unshuffled = Inr ([flip (new_card HEARTS 2), new_card HEARTS 3], [new_card HEARTS 4, new_card HEARTS 5], drop 4 unshuffled) \<and>
   full_table (drop 4 unshuffled) [flip (new_card HEARTS 2), new_card HEARTS 3] [new_card HEARTS 4, new_card HEARTS 5] \<and>
   deal (drop 4 unshuffled) = Inr (new_card HEARTS 6, drop 5 unshuffled) \<and>
   full_table (drop 5 unshuffled) [flip (new_card HEARTS 2), new_card HEARTS 3] ([new_card HEARTS 4, new_card HEARTS 5] @ [new_card HEARTS 6]) \<and>
   playerTurn float_plain 10 [new_card HEARTS 4, new_card HEARTS 5] 5 (drop 4 unshuffled) [''H'', ''H'']
      = Inr ([new_card HEARTS 4, new_card HEARTS 5, new_card HEARTS 6, new_card HEARTS 7], 5, drop 6 unshuffled, []) \<and>
   full_table (drop 6 unshuffled) [flip (new_card HEARTS 2), new_card HEARTS 3] [new_card HEARTS 4, new_card HEARTS 5, new_card HEARTS 6, new_card HEARTS 7] \<and>
   dealerTurn [flip (new_card HEARTS 2), new_card HEARTS 3] (drop 6 unshuffled) [[], []]
      = Inr ([flip (new_card HEARTS 2), new_card HEARTS 3, new_card HEARTS 8, new_card HEARTS 9], drop 8 unshuffled, []) \<and>
   full_table (drop 8 unshuffled) [flip (new_card HEARTS 2), new_card HEARTS 3, new_card HEARTS 8, new_card HEARTS 9] [new_card HEARTS 4, new_card HEARTS 5, new_card HEARTS 6, new_card HEARTS 7] \<and>
   displayCards [flip (new_card HEARTS 2), new_card HEARTS 3, new_card HEARTS 8, new_card HEARTS 9] [new_card HEARTS 4, new_card HEARTS 5, new_card HEARTS 6, new_card HEARTS 7] True
      = Inr [new_card HEARTS 2, new_card HEARTS 3, new_card HEARTS 8, new_card HEARTS 9] \<and>
   full_table (drop 8 unshuffled) [new_card HEARTS 2, new_card HEARTS 3, new_card HEARTS 8, new_card HEARTS 9] [new_card HEARTS 4, new_card HEARTS 5, new_card HEARTS 6, new_card HEARTS 7] \<and>
   playHands float_plain 10 unshuffled [''5'', ''H'', ''H'', [], [], []]
      = Inr (5, [new_card HEARTS 2, new_card HEARTS 3, new_card HEARTS 8, new_card HEARTS 9], [new_card HEARTS 4, new_card HEARTS 5, new_card HEARTS 6, new_card HEARTS 7], drop 8 unshuffled, []) \<and>
   playRound float_plain 10 unshuffled [''5'', ''H'', ''H'', [], [], [], []]
      = Inr (15, drop 8 unshuffled @ [new_card HEARTS 2, new_card HEARTS 3, new_card HEARTS 8, new_card HEARTS 9] @ [new_card HEARTS 4, new_card HEARTS 5, new_card HEARTS 6, new_card HEARTS 7], []) \<and>
   full_table (drop 8 unshuffled @ [new_card HEARTS 2, new_card HEARTS 3, new_card HEARTS 8, new_card HEARTS 9] @ [new_card HEARTS 4, new_card HEARTS 5, new_card HEARTS 6, new_card HEARTS 7]) [] [] \<and>
   rounds float_plain 1 (10, unshuffled, 1, [''5'', ''H'', ''H'', [], [], [], []])
      = Inr (15, drop 8 unshuffled @ [new_card HEARTS 2, new_card HEARTS 3, new_card HEARTS 8, new_card HEARTS 9] @ [new_card HEARTS 4, new_card HEARTS 5, new_card HEARTS 6, new_card HEARTS 7], 2, []) \<and>
   length (drop 8 unshuffled @ [new_card HEARTS 2, new_card HEARTS 3, new_card HEARTS 8, new_card HEARTS 9] @ [new_card HEARTS 4, new_card HEARTS 5, new_card HEARTS 6, new_card HEARTS 7]) = 52 \<and>
   length (drop 8 unshuffled) + length [new_card HEARTS 2, new_card HEARTS 3, new_card HEARTS 8, new_card HEARTS 9] + length [new_card HEARTS 4, new_card HEARTS 5, new_card HEARTS 6, new_card HEARTS 7] = 52"
proof -
  have f0: "DeckofCards unshuffled"
    by (simp add: DeckofCards_def)
  have g0: "full_table unshuffled [] []"
    using f0 card_population [where deck = unshuffled, THEN conjunct1] by blast
  have f1: "dealHands unshuffled = Inr ([flip (new_card HEARTS 2), new_card HEARTS 3], [new_card HEARTS 4, new_card HEARTS 5], drop 4 unshuffled)"
    by code_simp
  have g1: "full_table (drop 4 unshuffled) [flip (new_card HEARTS 2), new_card HEARTS 3] [new_card HEARTS 4, new_card HEARTS 5]"
    using g0 f1 card_population [where deck = unshuffled and ?d0.0 = "[flip (new_card HEARTS 2), new_card HEARTS 3]" and ?u0.0 = "[new_card HEARTS 4, new_card HEARTS 5]" and ?k0.0 = "drop 4 unshuffled", THEN conjunct2, THEN conjunct1] by blast
  have f2: "deal (drop 4 unshuffled) = Inr (new_card HEARTS 6, drop 5 unshuffled)"
    by code_simp
  have g2: "full_table (drop 5 unshuffled) [flip (new_card HEARTS 2), new_card HEARTS 3] ([new_card HEARTS 4, new_card HEARTS 5] @ [new_card HEARTS 6])"
    using g1 f2 card_population [where k = "drop 4 unshuffled" and d = "[flip (new_card HEARTS 2), new_card HEARTS 3]" and u = "[new_card HEARTS 4, new_card HEARTS 5]" and c = "new_card HEARTS 6" and ?k1.0 = "drop 5 unshuffled", THEN conjunct2, THEN conjunct2, THEN conjunct1] by blast
  have f3: "playerTurn float_plain 10 [new_card HEARTS 4, new_card HEARTS 5] 5 (drop 4 unshuffled) [''H'', ''H'']
      = Inr ([new_card HEARTS 4, new_card HEARTS 5, new_card HEARTS 6, new_card HEARTS 7], 5, drop 6 unshuffled, [])"
    by code_simp
  have g3: "full_table (drop 6 unshuffled) [flip (new_card HEARTS 2), new_card HEARTS 3] [new_card HEARTS 4, new_card HEARTS 5, new_card HEARTS 6, new_card HEARTS 7]"
    using g1 f3 card_population [where k = "drop 4 unshuffled" and d = "[flip (new_card HEARTS 2), new_card HEARTS 3]" and u = "[new_card HEARTS 4, new_card HEARTS 5]" and fl = float_plain and M = 10 and b = 5 and ins = "[''H'', ''H'']" and u' = "[new_card HEARTS 4, new_card HEARTS 5, new_card HEARTS 6, new_card HEARTS 7]" and b' = 5 and k' = "drop 6 unshuffled" and ins' = "[]", THEN conjunct2, THEN conjunct2, THEN conjunct2, THEN conjunct1] by blast
  have f4: "dealerTurn [flip (new_card HEARTS 2), new_card HEARTS 3] (drop 6 unshuffled) [[], []]
      = Inr ([flip (new_card HEARTS 2), new_card HEARTS 3, new_card HEARTS 8, new_card HEARTS 9], drop 8 unshuffled, [])"
    by code_simp
  have g4: "full_table (drop 8 unshuffled) [flip (new_card HEARTS 2), new_card HEARTS 3, new_card HEARTS 8, new_card HEARTS 9] [new_card HEARTS 4, new_card HEARTS 5, new_card HEARTS 6, new_card HEARTS 7]"
    using g3 f4 card_population [where k = "drop 6 unshuffled" and d = "[flip (new_card HEARTS 2), new_card HEARTS 3]" and u = "[new_card HEARTS 4, new_card HEARTS 5, new_card HEARTS 6, new_card HEARTS 7]" and ins = "[[], []]" and d' = "[flip (new_card HEARTS 2), new_card HEARTS 3, new_card HEARTS 8, new_card HEARTS 9]" and k'' = "drop 8 unshuffled" and ins'' = "[]", THEN conjunct2, THEN conjunct2, THEN conjunct2, THEN conjunct2, THEN conjunct1] by blast
  have f5: "displayCards [flip (new_card HEARTS 2), new_card HEARTS 3, new_card HEARTS 8, new_card HEARTS 9] [new_card HEARTS 4, new_card HEARTS 5, new_card HEARTS 6, new_card HEARTS 7] True
      = Inr [new_card HEARTS 2, new_card HEARTS 3, new_card HEARTS 8, new_card HEARTS 9]"
    by code_simp
  have g5: "full_table (drop 8 unshuffled) [new_card HEARTS 2, new_card HEARTS 3, new_card HEARTS 8, new_card HEARTS 9] [new_card HEARTS 4, new_card HEARTS 5, new_card HEARTS 6, new_card HEARTS 7]"
    using g4 f5 card_population [where k = "drop 8 unshuffled" and d = "[flip (new_card HEARTS 2), new_card HEARTS 3, new_card HEARTS 8, new_card HEARTS 9]" and u = "[new_card HEARTS 4, new_card HEARTS 5, new_card HEARTS 6, new_card HEARTS 7]" and ?d2.0 = "[new_card HEARTS 2, new_card HEARTS 3, new_card HEARTS 8, new_card HEARTS 9]", THEN conjunct2, THEN conjunct2, THEN conjunct2, THEN conjunct2, THEN conjunct2, THEN conjunct1] by blast
  have f6: "playHands float_plain 10 unshuffled [''5'', ''H'', ''H'', [], [], []]
      = Inr (5, [new_card HEARTS 2, new_card HEARTS 3, new_card HEARTS 8, new_card HEARTS 9], [new_card HEARTS 4, new_card HEARTS 5, new_card HEARTS 6, new_card HEARTS 7], drop 8 unshuffled, [])"
    by code_simp
  have f7: "playRound float_plain 10 unshuffled [''5'', ''H'', ''H'', [], [], [], []]
      = Inr (15, drop 8 unshuffled @ [new_card HEARTS 2, new_card HEARTS 3, new_card HEARTS 8, new_card HEARTS 9] @ [new_card HEARTS 4, new_card HEARTS 5, new_card HEARTS 6, new_card HEARTS 7], [])"
    by code_simp
  have g7: "full_table (drop 8 unshuffled @ [new_card HEARTS 2, new_card HEARTS 3, new_card HEARTS 8, new_card HEARTS 9] @ [new_card HEARTS 4, new_card HEARTS 5, new_card HEARTS 6, new_card HEARTS 7]) [] []"
    using g0 f7 card_population [where deck = unshuffled and fl = float_plain and M = 10 and ?ins0.0 = "[''5'', ''H'', ''H'', [], [], [], []]" and ?M1.0 = 15 and ?deck1.0 = "drop 8 unshuffled @ [new_card HEARTS 2, new_card HEARTS 3, new_card HEARTS 8, new_card HEARTS 9] @ [new_card HEARTS 4, new_card HEARTS 5, new_card HEARTS 6, new_card HEARTS 7]" and ?ins1.0 = "[]", THEN conjunct2, THEN conjunct2, THEN conjunct2, THEN conjunct2, THEN conjunct2, THEN conjunct2, THEN conjunct2, THEN conjunct1] by blast
  have f8: "rounds float_plain 1 (10, unshuffled, 1, [''5'', ''H'', ''H'', [], [], [], []])
      = Inr (15, drop 8 unshuffled @ [new_card HEARTS 2, new_card HEARTS 3, new_card HEARTS 8, new_card HEARTS 9] @ [new_card HEARTS 4, new_card HEARTS 5, new_card HEARTS 6, new_card HEARTS 7], 2, [])"
    by code_simp
  have g8: "length (drop 8 unshuffled @ [new_card HEARTS 2, new_card HEARTS 3, new_card HEARTS 8, new_card HEARTS 9] @ [new_card HEARTS 4, new_card HEARTS 5, new_card HEARTS 6, new_card HEARTS 7]) = 52"
    using f0 f8 card_population [where deck = unshuffled and fl = float_plain and M = 10 and n = 1 and rc = 1 and ?ins0.0 = "[''5'', ''H'', ''H'', [], [], [], []]" and ?M2.0 = 15 and ?deck2.0 = "drop 8 unshuffled @ [new_card HEARTS 2, new_card HEARTS 3, new_card HEARTS 8, new_card HEARTS 9] @ [new_card HEARTS 4, new_card HEARTS 5, new_card HEARTS 6, new_card HEARTS 7]" and ?rc2.0 = 2 and ?ins2.0 = "[]", THEN conjunct2, THEN conjunct2, THEN conjunct2, THEN conjunct2, THEN conjunct2, THEN conjunct2, THEN conjunct2, THEN conjunct2, THEN conjunct1] by blast
  have g9: "length (drop 8 unshuffled) + length [new_card HEARTS 2, new_card HEARTS 3, new_card HEARTS 8, new_card HEARTS 9] + length [new_card HEARTS 4, new_card HEARTS 5, new_card HEARTS 6, new_card HEARTS 7] = 52"
    using g5 card_population [where k = "drop 8 unshuffled" and d = "[new_card HEARTS 2, new_card HEARTS 3, new_card HEARTS 8, new_card HEARTS 9]" and u = "[new_card HEARTS 4, new_card HEARTS 5, new_card HEARTS 6, new_card HEARTS 7]", THEN conjunct2, THEN conjunct2, THEN conjunct2, THEN conjunct2, THEN conjunct2, THEN conjunct2, THEN conjunct2, THEN conjunct2, THEN conjunct2] by blast
  show ?thesis
    by (intro conjI) (fact f0 g0 f1 g1 f2 g2 f3 g3 f4 g4 f5 g5 f6 f7 g7 f8 g8 g9)+
qed

subsection \<open>Face-up cards at the discard\<close>

lemma unshuffled_face_up: "c \<in> set unshuffled \<Longrightarrow> \<not> face_down c"
  by (auto simp: unshuffled_def new_card_def face_down_def)

text \<open>
  Claim C9. From a deck of face-up cards the opening deal leaves exactly the dealer's
  first card face-down; the dealer's turn keeps that card first in the dealer's hand; the
  final display flips it, and two flips give the card back as it was. So at the final
  display, just before the discard, the hands and the deck hold the very cards the round
  started with, flags included, and every card in both hands is face-up; the deck a round
  returns is face-up again, and so is the deck after any number of rounds from a new deck.
\<close>

theorem cards_face_up_at_discard:
  "(dealHands deck = Inr (d0, u0, k0) \<and> (\<forall>c\<in>set deck. \<not> face_down c) \<longrightarrow>
      face_down (hd d0) \<and> (\<forall>c\<in>set (tl d0 @ u0 @ k0). \<not> face_down c)) \<and>
   (dealerTurn d k ins = Inr (d1, k1, ins1) \<and> d \<noteq> [] \<longrightarrow> hd d1 = hd d) \<and>
   (displayCards d1 u True = Inr d2 \<longrightarrow> d2 = flip (hd d1) # tl d1) \<and>
   flip (flip c) = c \<and>
   (playHands fl M deck ins0 = Inr (bet, d3, u3, k3, ins3) \<longrightarrow>
      mset (d3 @ u3 @ k3) = mset deck) \<and>
   (playHands fl M deck ins0 = Inr (bet, d3, u3, k3, ins3) \<and> (\<forall>c\<in>set deck. \<not> face_down c) \<longrightarrow>
      (\<forall>c\<in>set (d3 @ u3). \<not> face_down c)) \<and>
   (playRound fl M deck ins0 = Inr (M1, deck1, ins4) \<and> (\<forall>c\<in>set deck. \<not> face_down c) \<longrightarrow>
      (\<forall>c\<in>set deck1. \<not> face_down c)) \<and>
   (DeckofCards deck \<and> rounds fl n (M, deck, rc, ins0) = Inr (M2, deck2, rc2, ins2) \<longrightarrow>
      (\<forall>c\<in>set deck2. \<not> face_down c))"
proof (intro conjI impI; (elim conjE)?)
  show "face_down (hd d0)"
    if "dealHands deck = Inr (d0, u0, k0)" "\<forall>c\<in>set deck. \<not> face_down c"
    using that by (auto simp: dealHands_Inr face_down_def flip_def)
  show "\<forall>c\<in>set (tl d0 @ u0 @ k0). \<not> face_down c"
    if "dealHands deck = Inr (d0, u0, k0)" "\<forall>c\<in>set deck. \<not> face_down c"
    using that by (auto simp: dealHands_Inr)
  show "hd d1 = hd d" if "dealerTurn d k ins = Inr (d1, k1, ins1)" "d \<noteq> []"
    using dealerTurn_cards [OF that(1)] that(2) by auto
  show "d2 = flip (hd d1) # tl d1" if "displayCards d1 u True = Inr d2"
    using that by (auto simp: displayCards_True)
  show "flip (flip c) = c" by (rule flip_flip)
  show "mset (d3 @ u3 @ k3) = mset deck"
    if "playHands fl M deck ins0 = Inr (bet, d3, u3, k3, ins3)"
    using that by (rule playHands_cards)
  show "\<forall>c\<in>set (d3 @ u3). \<not> face_down c"
    if "playHands fl M deck ins0 = Inr (bet, d3, u3, k3, ins3)" "\<forall>c\<in>set deck. \<not> face_down c"
  proof -
    from playHands_cards [OF that(1)] have "set (d3 @ u3 @ k3) = set deck"
      by (rule mset_eq_setD)
    with that(2) show ?thesis by auto
  qed
  show "\<forall>c\<in>set deck1. \<not> face_down c"
    if "playRound fl M deck ins0 = Inr (M1, deck1, ins4)" "\<forall>c\<in>set deck. \<not> face_down c"
  proof -
    from playRound_cards [OF that(1)] have "set deck1 = set deck"
      by (rule mset_eq_setD)
    with that(2) show ?thesis by simp
  qed
  show "\<forall>c\<in>set deck2. \<not> face_down c"
    if "DeckofCards deck" "rounds fl n (M, deck, rc, ins0) = Inr (M2, deck2, rc2, ins2)"
  proof -
    from rounds_cards [OF that(2)] that(1) have "mset deck2 = mset unshuffled"
      by (simp add: DeckofCards_def)
    then have "set deck2 = set unshuffled" by (rule mset_eq_setD)
    then show ?thesis by (auto dest: unshuffled_face_up)
  qed
qed

theorem cards_face_up_at_discard_witness:
  "list_all (\<lambda>c. \<not> face_down c) unshuffled \<and>
   DeckofCards unshuffled \<and>
   dealHands unshuffled = Inr ([flip (new_card HEARTS 2), new_card HEARTS 3], [new_card HEARTS 4, new_card HEARTS 5], drop 4 unshuffled) \<and>
   face_down (hd [flip (new_card HEARTS 2), new_card HEARTS 3]) \<and>
   dealerTurn [flip (new_card HEARTS 2), new_card HEARTS 3] (drop 6 unshuffled) [[], []]
      = Inr ([flip (new_card HEARTS 2), new_card HEARTS 3, new_card HEARTS 8, new_card HEARTS 9], drop 8 unshuffled, []) \<and>
   [flip (new_card HEARTS 2), new_card HEARTS 3] \<noteq> [] \<and>
   hd [flip (new_card HEARTS 2), new_card HEARTS 3, new_card HEARTS 8, new_card HEARTS 9] = hd [flip (new_card HEARTS 2), new_card HEARTS 3] \<and>
   displayCards [flip (new_card HEARTS 2), new_card HEARTS 3, new_card HEARTS 8, new_card HEARTS 9] [new_card HEARTS 4, new_card HEARTS 5, new_card HEARTS 6, new_card HEARTS 7] True
      = Inr [new_card HEARTS 2, new_card HEARTS 3, new_card HEARTS 8, new_card HEARTS 9] \<and>
   [new_card HEARTS 2, new_card HEARTS 3, new_card HEARTS 8, new_card HEARTS 9]
      = flip (hd [flip (new_card HEARTS 2), new_card HEARTS 3, new_card HEARTS 8, new_card HEARTS 9]) # tl [flip (new_card HEARTS 2), new_card HEARTS 3, new_card HEARTS 8, new_card HEARTS 9] \<and>
   playHands float_plain 10 unshuffled [''5'', ''H'', ''H'', [], [], []]
      = Inr (5, [new_card HEARTS 2, new_card HEARTS 3, new_card HEARTS 8, new_card HEARTS 9], [new_card HEARTS 4, new_card HEARTS 5, new_card HEARTS 6, new_card HEARTS 7], drop 8 unshuffled, []) \<and>
   list_all (\<lambda>c. \<not> face_down c) ([new_card HEARTS 2, new_card HEARTS 3, new_card HEARTS 8, new_card HEARTS 9] @ [new_card HEARTS 4, new_card HEARTS 5, new_card HEARTS 6, new_card HEARTS 7]) \<and>
   playRound float_plain 10 unshuffled [''5'', ''H'', ''H'', [], [], [], []]
      = Inr (15, drop 8 unshuffled @ [new_card HEARTS 2, new_card HEARTS 3, new_card HEARTS 8, new_card HEARTS 9] @ [new_card HEARTS 4, new_card HEARTS 5, new_card HEARTS 6, new_card HEARTS 7], []) \<and>
   list_all (\<lambda>c. \<not> face_down c) (drop 8 unshuffled @ [new_card HEARTS 2, new_card HEARTS 3, new_card HEARTS 8, new_card HEARTS 9] @ [new_card HEARTS 4, new_card HEARTS 5, new_card HEARTS 6, new_card HEARTS 7]) \<and>
   rounds float_plain 2 (10, unshuffled, 1, [''5'', ''H'', ''H'', [], [], [], [], ''5'', ''S'', [], []])
      = Inr (15, drop 12 unshuffled @ [new_card HEARTS 2, new_card HEARTS 3, new_card HEARTS 8, new_card HEARTS 9] @ [new_card HEARTS 4, new_card HEARTS 5, new_card HEARTS 6, new_card HEARTS 7] @ [new_card HEARTS 10, new_card HEARTS 11, new_card HEARTS 12, new_card HEARTS 13], 3, []) \<and>
   list_all (\<lambda>c. \<not> face_down c) (drop 12 unshuffled @ [new_card HEARTS 2, new_card HEARTS 3, new_card HEARTS 8, new_card HEARTS 9] @ [new_card HEARTS 4, new_card HEARTS 5, new_card HEARTS 6, new_card HEARTS 7] @ [new_card HEARTS 10, new_card HEARTS 11, new_card HEARTS 12, new_card HEARTS 13])"
proof -
  have u0: "list_all (\<lambda>c. \<not> face_down c) unshuffled"
    by code_simp
  have f0: "DeckofCards unshuffled"
    by (simp add: DeckofCards_def)
  have f1: "dealHands unshuffled = Inr ([flip (new_card HEARTS 2), new_card HEARTS 3], [new_card HEARTS 4, new_card HEARTS 5], drop 4 unshuffled)"
    by code_simp
  have g1: "face_down (hd [flip (new_card HEARTS 2), new_card HEARTS 3])"
    using f1 u0 [unfolded list_all_iff] cards_face_up_at_discard [where deck = unshuffled and ?d0.0 = "[flip (new_card HEARTS 2), new_card HEARTS 3]" and ?u0.0 = "[new_card HEARTS 4, new_card HEARTS 5]" and ?k0.0 = "drop 4 unshuffled", THEN conjunct1] by blast
  have f4: "dealerTurn [flip (new_card HEARTS 2), new_card HEARTS 3] (drop 6 unshuffled) [[], []]
      = Inr ([flip (new_card HEARTS 2), new_card HEARTS 3, new_card HEARTS 8, new_card HEARTS 9], drop 8 unshuffled, [])"
    by code_simp
  have n4: "[flip (new_card HEARTS 2), new_card HEARTS 3] \<noteq> []"
    by simp
  have g4: "hd [flip (new_card HEARTS 2), new_card HEARTS 3, new_card HEARTS 8, new_card HEARTS 9] = hd [flip (new_card HEARTS 2), new_card HEARTS 3]"
    using f4 n4 cards_face_up_at_discard [where d = "[flip (new_card HEARTS 2), new_card HEARTS 3]" and k = "drop 6 unshuffled" and ins = "[[], []]" and ?d1.0 = "[flip (new_card HEARTS 2), new_card HEARTS 3, new_card HEARTS 8, new_card HEARTS 9]" and ?k1.0 = "drop 8 unshuffled" and ?ins1.0 = "[]", THEN conjunct2, THEN conjunct1] by blast
  have f5: "displayCards [flip (new_card HEARTS 2), new_card HEARTS 3, new_card HEARTS 8, new_card HEARTS 9] [new_card HEARTS 4, new_card HEARTS 5, new_card HEARTS 6, new_card HEARTS 7] True
      = Inr [new_card HEARTS 2, new_card HEARTS 3, new_card HEARTS 8, new_card HEARTS 9]"
    by code_simp
  have g5: "[new_card HEARTS 2, new_card HEARTS 3, new_card HEARTS 8, new_card HEARTS 9]
      = flip (hd [flip (new_card HEARTS 2), new_card HEARTS 3, new_card HEARTS 8, new_card HEARTS 9]) # tl [flip (new_card HEARTS 2), new_card HEARTS 3, new_card HEARTS 8, new_card HEARTS 9]"
    using f5 cards_face_up_at_discard [where ?d1.0 = "[flip (new_card HEARTS 2), new_card HEARTS 3, new_card HEARTS 8, new_card HEARTS 9]" and u = "[new_card HEARTS 4, new_card HEARTS 5, new_card HEARTS 6, new_card HEARTS 7]" and ?d2.0 = "[new_card HEARTS 2, new_card HEARTS 3, new_card HEARTS 8, new_card HEARTS 9]", THEN conjunct2, THEN conjunct2, THEN conjunct1] by blast
  have f6: "playHands float_plain 10 unshuffled [''5'', ''H'', ''H'', [], [], []]
      = Inr (5, [new_card HEARTS 2, new_card HEARTS 3, new_card HEARTS 8, new_card HEARTS 9], [new_card HEARTS 4, new_card HEARTS 5, new_card HEARTS 6, new_card HEARTS 7], drop 8 unshuffled, [])"
    by code_simp
  have g6: "list_all (\<lambda>c. \<not> face_down c) ([new_card HEARTS 2, new_card HEARTS 3, new_card HEARTS 8, new_card HEARTS 9] @ [new_card HEARTS 4, new_card HEARTS 5, new_card HEARTS 6, new_card HEARTS 7])"
    using f6 u0 [unfolded list_all_iff] cards_face_up_at_discard [where deck = unshuffled and fl = float_plain and M = 10 and ?ins0.0 = "[''5'', ''H'', ''H'', [], [], []]" and bet = 5 and ?d3.0 = "[new_card HEARTS 2, new_card HEARTS 3, new_card HEARTS 8, new_card HEARTS 9]" and ?u3.0 = "[new_card HEARTS 4, new_card HEARTS 5, new_card HEARTS 6, new_card HEARTS 7]" and ?k3.0 = "drop 8 unshuffled" and ?ins3.0 = "[]", THEN conjunct2, THEN conjunct2, THEN conjunct2, THEN conjunct2, THEN conjunct2, THEN conjunct1] unfolding list_all_iff by blast
  have f7: "playRound float_plain 10 unshuffled [''5'', ''H'', ''H'', [], [], [], []]
      = Inr (15, drop 8 unshuffled @ [new_card HEARTS 2, new_card HEARTS 3, new_card HEARTS 8, new_card HEARTS 9] @ [new_card HEARTS 4, new_card HEARTS 5, new_card HEARTS 6, new_card HEARTS 7], [])"
    by code_simp
  have g7: "list_all (\<lambda>c. \<not> face_down c) (drop 8 unshuffled @ [new_card HEARTS 2, new_card HEARTS 3, new_card HEARTS 8, new_card HEARTS 9] @ [new_card HEARTS 4, new_card HEARTS 5, new_card HEARTS 6, new_card HEARTS 7])"
    using f7 u0 [unfolded list_all_iff] cards_face_up_at_discard [where deck = unshuffled and fl = float_plain and M = 10 and ?ins0.0 = "[''5'', ''H'', ''H'', [], [], [], []]" and ?M1.0 = 15 and ?deck1.0 = "drop 8 unshuffled @ [new_card HEARTS 2, new_card HEARTS 3, new_card HEARTS 8, new_card HEARTS 9] @ [new_card HEARTS 4, new_card HEARTS 5, new_card HEARTS 6, new_card HEARTS 7]" and ?ins4.0 = "[]", THEN conjunct2, THEN conjunct2, THEN conjunct2, THEN conjunct2, THEN conjunct2, THEN conjunct2, THEN conjunct1] unfolding list_all_iff by blast
  have f8: "rounds float_plain 2 (10, unshuffled, 1, [''5'', ''H'', ''H'', [], [], [], [], ''5'', ''S'', [], []])
      = Inr (15, drop 12 unshuffled @ [new_card HEARTS 2, new_card HEARTS 3, new_card HEARTS 8, new_card HEARTS 9] @ [new_card HEARTS 4, new_card HEARTS 5, new_card HEARTS 6, new_card HEARTS 7] @ [new_card HEARTS 10, new_card HEARTS 11, new_card HEARTS 12, new_card HEARTS 13], 3, [])"
    by code_simp
  have g8: "list_all (\<lambda>c. \<not> face_down c) (drop 12 unshuffled @ [new_card HEARTS 2, new_card HEARTS 3, new_card HEARTS 8, new_card HEARTS 9] @ [new_card HEARTS 4, new_card HEARTS 5, new_card HEARTS 6, new_card HEARTS 7] @ [new_card HEARTS 10, new_card HEARTS 11, new_card HEARTS 12, new_card HEARTS 13])"
    using f0 f8 cards_face_up_at_discard [where deck = unshuffled and fl = float_plain and M = 10 and n = 2 and rc = 1 and ?ins0.0 = "[''5'', ''H'', ''H'', [], [], [], [], ''5'', ''S'', [], []]" and ?M2.0 = 15 and ?deck2.0 = "drop 12 unshuffled @ [new_card HEARTS 2, new_card HEARTS 3, new_card HEARTS 8, new_card HEARTS 9] @ [new_card HEARTS 4, new_card HEARTS 5, new_card HEARTS 6, new_card HEARTS 7] @ [new_card HEARTS 10, new_card HEARTS 11, new_card HEARTS 12, new_card HEARTS 13]" and ?rc2.0 = 3 and ?ins2.0 = "[]", THEN conjunct2, THEN conjunct2, THEN conjunct2, THEN conjunct2, THEN conjunct2, THEN conjunct2, THEN conjunct2] unfolding list_all_iff by blast
  show ?thesis
    by (intro conjI) (fact u0 f0 f1 g1 f4 n4 g4 f5 g5 f6 g6 f7 g7 f8 g8)+
qed

end
